theory Spec2Isabelle
  imports Complex_Main "HOL-Library.Multiset"
begin

section \<open>The C++ type double\<close>

text \<open>
  The solver computes with C++ \<^verbatim>\<open>double\<close>. A value is a number, one of the two
  infinities, or not-a-number. Numbers are kept as reals: a result is not rounded to 53 bits,
  but a result beyond \<^verbatim>\<open>DBL_MAX\<close> overflows to an infinity and the invalid operations
  give NaN, as IEEE 754 has them. Comparisons with NaN are false. The sign of zero is not
  kept: a nonzero number divided by zero gives the infinity of the dividend's sign.
\<close>

datatype double = Finite real | PlusInf | MinusInf | NaN

text \<open>
  \<^verbatim>\<open>DBL_MAX\<close>, the largest number of the type: 53 one bits scaled by the largest
  exponent.
\<close>

definition DBL_MAX :: real where
  "DBL_MAX = (2 ^ 53 - 1) * 2 ^ 971"

definition fl :: "real \<Rightarrow> double" where
  "fl r = (if DBL_MAX < r then PlusInf else if r < - DBL_MAX then MinusInf else Finite r)"

fun dlt :: "double \<Rightarrow> double \<Rightarrow> bool" where
  "dlt NaN y = False"
| "dlt x NaN = False"
| "dlt (Finite a) (Finite b) = (a < b)"
| "dlt (Finite a) PlusInf = True"
| "dlt (Finite a) MinusInf = False"
| "dlt PlusInf y = False"
| "dlt MinusInf (Finite b) = True"
| "dlt MinusInf PlusInf = True"
| "dlt MinusInf MinusInf = False"

fun deq :: "double \<Rightarrow> double \<Rightarrow> bool" where
  "deq NaN y = False"
| "deq x NaN = False"
| "deq x y = (x = y)"

definition dge :: "double \<Rightarrow> double \<Rightarrow> bool" where
  "dge x y = (dlt y x \<or> deq x y)"

fun dneg :: "double \<Rightarrow> double" where
  "dneg (Finite a) = Finite (- a)"
| "dneg PlusInf = MinusInf"
| "dneg MinusInf = PlusInf"
| "dneg NaN = NaN"

fun dadd :: "double \<Rightarrow> double \<Rightarrow> double" where
  "dadd NaN y = NaN"
| "dadd x NaN = NaN"
| "dadd (Finite a) (Finite b) = fl (a + b)"
| "dadd (Finite a) y = y"
| "dadd x (Finite b) = x"
| "dadd PlusInf PlusInf = PlusInf"
| "dadd MinusInf MinusInf = MinusInf"
| "dadd PlusInf MinusInf = NaN"
| "dadd MinusInf PlusInf = NaN"

definition dsub :: "double \<Rightarrow> double \<Rightarrow> double" where
  "dsub x y = dadd x (dneg y)"

fun ddiv :: "double \<Rightarrow> double \<Rightarrow> double" where
  "ddiv NaN y = NaN"
| "ddiv x NaN = NaN"
| "ddiv (Finite a) (Finite b) =
     (if b = 0 then (if a = 0 then NaN else if 0 < a then PlusInf else MinusInf)
      else fl (a / b))"
| "ddiv (Finite a) y = Finite 0"
| "ddiv x (Finite b) = (if b < 0 then dneg x else x)"
| "ddiv x y = NaN"

text \<open>\<^verbatim>\<open>std::isfinite\<close>: a number, neither an infinity nor NaN.\<close>

fun isfinite :: "double \<Rightarrow> bool" where
  "isfinite (Finite a) = True"
| "isfinite x = False"

text \<open>
  The constants of solve\_VPSC.cpp, lines 55 and 56. The literals \<^verbatim>\<open>-1e-10\<close> and
  \<^verbatim>\<open>-1e-4\<close> denote the doubles nearest to these decimals: \<open>-7737125245533627 / 2^86\<close>,
  which lies just below \<open>-1 / 10^10\<close>, and \<open>-7378697629483821 / 2^66\<close>, which lies just
  below \<open>-1 / 10^4\<close>.
\<close>

definition ZERO_UPPERBOUND :: double where
  "ZERO_UPPERBOUND = Finite (- (7737125245533627 / 2 ^ 86))"

definition LAGRANGIAN_TOLERANCE :: double where
  "LAGRANGIAN_TOLERANCE = Finite (- (7378697629483821 / 2 ^ 66))"

section \<open>The objects of the solver\<close>

text \<open>
  Variables, constraints and blocks are heap objects that the solver reaches through
  pointers. An address is a natural number and each class has its own heap, a function from
  addresses to objects. The declarations are in headers outside this translation unit; the
  fields below are the ones solve\_VPSC.cpp and the specification name.
\<close>

record variable =
  desiredPosition :: double
  weight :: double
  scale :: double
  offset :: double
  block :: nat
  finalPosition :: double

record constraint =
  left :: nat
  right :: nat
  gap :: double
  equality :: bool
  active :: bool
  lm :: double
  unsatisfiable :: bool

record block_obj =
  vars :: "nat list"
  posn :: double
  deleted :: bool

text \<open>
  The state a solver works on: the three heaps, the block set \<^verbatim>\<open>bs\<close> (a \<^verbatim>\<open>std::set<Block*>\<close>, kept as
  the list of its elements in iteration order, without repetition), the vectors \<^verbatim>\<open>vs\<close>
  and \<^verbatim>\<open>cs\<close> of the constructor, and the list \<^verbatim>\<open>inactive\<close> of the incremental solver.
  What a block keeps besides (its active tree, its heaps, its weights) is in no field here:
  it lives in the extension of the record, so every function below takes a
  \<open>'a solver_scheme\<close> and is defined for whatever the extension holds.
\<close>

record solver =
  variables :: "nat \<Rightarrow> variable"
  constraints :: "nat \<Rightarrow> constraint"
  blocks :: "nat \<Rightarrow> block_obj"
  bs :: "nat list"
  vs :: "nat list"
  cs :: "nat list"
  inactive :: "nat list"

text \<open>
  \<^verbatim>\<open>n\<close> and \<^verbatim>\<open>m\<close> are set by the constructor (line 65) to the sizes of \<^verbatim>\<open>vs\<close> and
  \<^verbatim>\<open>cs\<close>.
\<close>

definition n :: "'a solver_scheme \<Rightarrow> nat" where
  "n st = length (vs st)"

definition m :: "'a solver_scheme \<Rightarrow> nat" where
  "m st = length (cs st)"

text \<open>
  Modelled from the spec: \<^verbatim>\<open>Variable::position()\<close> is declared in variable.h, which is not
  part of the sources. The specification gives
  \<^verbatim>\<open>position = block.position + offset/scale\<close>.
\<close>

definition position :: "'a solver_scheme \<Rightarrow> nat \<Rightarrow> double" where
  "position st v =
     dadd (posn (blocks st (block (variables st v))))
          (ddiv (offset (variables st v)) (scale (variables st v)))"

text \<open>
  Modelled from the spec: \<^verbatim>\<open>Constraint::slack()\<close> is defined in constraint.cpp, which is
  not part of the sources. The specification gives
  \<^verbatim>\<open>slack = right.position - left.position - gap\<close>.
\<close>

definition slack :: "'a solver_scheme \<Rightarrow> nat \<Rightarrow> double" where
  "slack st c =
     dsub (dsub (position st (right (constraints st c))) (position st (left (constraints st c))))
          (gap (constraints st c))"

text \<open>
  What a call can end with instead of returning: the exception \<^verbatim>\<open>UnsatisfiedConstraint\<close>
  (lines 138 and 180), which carries the constraint; the \<^verbatim>\<open>const char*\<close> thrown at line
  309; and the read through a null pointer, which C++ leaves undefined. The pointer of
  line 309 is \<^verbatim>\<open>s.str().c_str()\<close>: it points into a temporary string that is destroyed
  when the throw expression has been evaluated, so a handler receives a \<^verbatim>\<open>const char*\<close>
  from which no constraint and no text can be read. \<open>ThrownCString\<close> therefore carries
  nothing.
\<close>

datatype error = UnsatisfiedConstraint nat | ThrownCString | NullDereference

section \<open>IncSolver::mostViolated\<close>

text \<open>
  The scan of lines 388 to 397. The accumulator holds \<^verbatim>\<open>minSlack\<close>, \<^verbatim>\<open>v\<close> and
  \<^verbatim>\<open>deletePoint\<close>; a null pointer and the end iterator are \<open>None\<close>; \<open>i\<close> is the
  position of the iterator. An equality constraint ends the scan (\<^verbatim>\<open>break\<close>).
\<close>

fun mostViolated_scan ::
  "'a solver_scheme \<Rightarrow> nat list \<Rightarrow> nat \<Rightarrow> double \<times> nat option \<times> nat option
     \<Rightarrow> double \<times> nat option \<times> nat option"
where
  "mostViolated_scan st [] i acc = acc"
| "mostViolated_scan st (c # rest) i (minSlack, v, deletePoint) =
     (if equality (constraints st c) \<or> dlt (slack st c) minSlack
      then (if equality (constraints st c)
            then (slack st c, Some c, Some i)
            else mostViolated_scan st rest (Suc i) (slack st c, Some c, Some i))
      else mostViolated_scan st rest (Suc i) (minSlack, v, deletePoint))"

text \<open>
  Lines 402 to 405: the last element is moved over the delete point and the vector shrinks
  by one.
\<close>

definition swap_remove :: "nat list \<Rightarrow> nat \<Rightarrow> nat list" where
  "swap_remove l i = butlast (l[i := last l])"

text \<open>
  \<^verbatim>\<open>mostViolated(l)\<close> returns the pointer \<^verbatim>\<open>v\<close> and the list it leaves in \<^verbatim>\<open>l\<close>.
  The test of line 402 reads \<^verbatim>\<open>v->active\<close> and \<^verbatim>\<open>v->equality\<close> only when
  \<^verbatim>\<open>deletePoint != end\<close>; reading them through a null \<^verbatim>\<open>v\<close> is the error
  \<open>NullDereference\<close>.
\<close>

definition mostViolated :: "'a solver_scheme \<Rightarrow> nat list \<Rightarrow> error + (nat option \<times> nat list)" where
  "mostViolated st l =
     (case mostViolated_scan st l 0 (Finite DBL_MAX, None, None) of
        (minSlack, v, deletePoint) \<Rightarrow>
          (case deletePoint of
             None \<Rightarrow> Inr (v, l)
           | Some i \<Rightarrow>
               (case v of
                  None \<Rightarrow> Inl NullDereference
                | Some c \<Rightarrow>
                    if (dlt minSlack ZERO_UPPERBOUND \<and> \<not> active (constraints st c))
                       \<or> equality (constraints st c)
                    then Inr (v, swap_remove l i)
                    else Inr (v, l))))"

section \<open>Block and Blocks\<close>

text \<open>
  The classes \<^verbatim>\<open>Block\<close> and \<^verbatim>\<open>Blocks\<close> are declared in block.h and blocks.h and
  defined outside this translation unit. Their member functions that solve\_VPSC.cpp calls
  are parameters of the model: a record of functions on the solver state, one field for each
  member function. A member function that returns a value and changes the state returns
  both. \<^verbatim>\<open>Block::splitBetween\<close> may throw \<^verbatim>\<open>UnsatisfiableException\<close> (caught at line
  268), which carries a path of constraints: that outcome is \<open>Inl\<close>; otherwise it returns
  the freed constraint (or null) and sets the two halves \<^verbatim>\<open>lb\<close> and \<^verbatim>\<open>rb\<close>.
  \<^verbatim>\<open>Block::split(l, r, c)\<close> sets \<^verbatim>\<open>l\<close> and \<^verbatim>\<open>r\<close>. A member of \<^verbatim>\<open>Block\<close>
  takes its block first: \<open>Block_merge ops lb rb c\<close> is \<^verbatim>\<open>lb->merge(rb, c)\<close>, and
  \<open>Blocks_split ops b c\<close> is \<^verbatim>\<open>bs->split(b, l, r, c)\<close>, whose \<^verbatim>\<open>l\<close> and \<^verbatim>\<open>r\<close>
  are not read afterwards. The loops over the block set visit the elements the set has when
  the loop starts; the members called inside them are taken not to insert or erase blocks,
  except in \<^verbatim>\<open>splitBlocks\<close>, where the iterator is followed through the insertions.
\<close>

record 'a ops =
  Blocks_totalOrder :: "'a solver_scheme \<Rightarrow> nat list"
  Blocks_mergeLeft :: "nat \<Rightarrow> 'a solver_scheme \<Rightarrow> 'a solver_scheme"
  Blocks_cleanup :: "'a solver_scheme \<Rightarrow> 'a solver_scheme"
  Blocks_split :: "nat \<Rightarrow> nat \<Rightarrow> 'a solver_scheme \<Rightarrow> 'a solver_scheme"
  Blocks_insert :: "nat \<Rightarrow> 'a solver_scheme \<Rightarrow> 'a solver_scheme"
  Block_setUpInConstraints :: "nat \<Rightarrow> 'a solver_scheme \<Rightarrow> 'a solver_scheme"
  Block_setUpOutConstraints :: "nat \<Rightarrow> 'a solver_scheme \<Rightarrow> 'a solver_scheme"
  Block_findMinLM :: "nat \<Rightarrow> 'a solver_scheme \<Rightarrow> nat option \<times> 'a solver_scheme"
  Block_merge :: "nat \<Rightarrow> nat \<Rightarrow> nat \<Rightarrow> 'a solver_scheme \<Rightarrow> nat \<times> 'a solver_scheme"
  Block_isActiveDirectedPathBetween :: "nat \<Rightarrow> nat \<Rightarrow> nat \<Rightarrow> 'a solver_scheme \<Rightarrow> bool"
  Block_splitBetween ::
    "nat \<Rightarrow> nat \<Rightarrow> nat \<Rightarrow> 'a solver_scheme
       \<Rightarrow> (nat list \<times> 'a solver_scheme) + (nat option \<times> nat \<times> nat \<times> 'a solver_scheme)"
  Block_updateWeightedPosition :: "nat \<Rightarrow> 'a solver_scheme \<Rightarrow> 'a solver_scheme"
  Block_split :: "nat \<Rightarrow> nat \<Rightarrow> 'a solver_scheme \<Rightarrow> nat \<times> nat \<times> 'a solver_scheme"

text \<open>
  \<^verbatim>\<open>ASSERT\<close> is a macro of assertions.h, outside the sources. It is taken as in a build
  without assertions: the condition has no effect on the run. Where a claim is about an
  asserted condition, the condition is a predicate of its own. The assertion of line 179
  stands inside the branch that throws at line 180 and contradicts the test of that branch:
  a build with assertions fails there before the throw. Writes to the log and to
  \<^verbatim>\<open>std::cerr\<close> are left out.
\<close>

section \<open>Solver::copyResult\<close>

text \<open>Lines 103 to 109: one pass over \<^verbatim>\<open>vs\<close>, writing \<^verbatim>\<open>finalPosition\<close>.\<close>

definition copyResult_step :: "nat \<Rightarrow> 'a solver_scheme \<Rightarrow> 'a solver_scheme" where
  "copyResult_step v st =
     st\<lparr>variables := (variables st)(v := (variables st v)\<lparr>finalPosition := position st v\<rparr>)\<rparr>"

definition copyResult :: "'a solver_scheme \<Rightarrow> 'a solver_scheme" where
  "copyResult st = fold copyResult_step (vs st) st"

text \<open>The condition of the assertion at line 107: \<^verbatim>\<open>v->finalPosition==v->finalPosition\<close>.\<close>

definition copyResult_assertion :: "'a solver_scheme \<Rightarrow> nat \<Rightarrow> bool" where
  "copyResult_assertion st v =
     deq (finalPosition (variables st v)) (finalPosition (variables st v))"

section \<open>Solver::satisfy\<close>

text \<open>Lines 121 to 128: the merge pass over the total order, then the cleanup.\<close>

definition satisfy_step :: "'a ops \<Rightarrow> nat \<Rightarrow> 'a solver_scheme \<Rightarrow> 'a solver_scheme" where
  "satisfy_step ops v st =
     (if \<not> deleted (blocks st (block (variables st v)))
      then Blocks_mergeLeft ops (block (variables st v)) st
      else st)"

definition satisfy_merge :: "'a ops \<Rightarrow> 'a solver_scheme \<Rightarrow> 'a solver_scheme" where
  "satisfy_merge ops st =
     Blocks_cleanup ops (fold (satisfy_step ops) (Blocks_totalOrder ops st) st)"

text \<open>
  Lines 129 to 140: the verification. The loop runs over \<^verbatim>\<open>cs[0..m-1]\<close>; it ends with the
  flag \<^verbatim>\<open>activeConstraints\<close> or throws at the first constraint whose slack is below
  \<^verbatim>\<open>ZERO_UPPERBOUND\<close>.
\<close>

fun satisfy_verify :: "'a solver_scheme \<Rightarrow> nat list \<Rightarrow> bool \<Rightarrow> error + bool" where
  "satisfy_verify st [] activeConstraints = Inr activeConstraints"
| "satisfy_verify st (c # rest) activeConstraints =
     (if dlt (slack st c) ZERO_UPPERBOUND
      then Inl (UnsatisfiedConstraint c)
      else satisfy_verify st rest
             (if active (constraints st c) then True else activeConstraints))"

definition Solver_satisfy :: "'a ops \<Rightarrow> 'a solver_scheme \<Rightarrow> error + (bool \<times> 'a solver_scheme)" where
  "Solver_satisfy ops st =
     (let st1 = satisfy_merge ops st
      in case satisfy_verify st1 (cs st1) False of
           Inl e \<Rightarrow> Inl e
         | Inr activeConstraints \<Rightarrow> Inr (activeConstraints, copyResult st1))"

section \<open>Solver::refine\<close>

text \<open>Lines 154 to 158: every block sets up its two heaps.\<close>

definition refine_setUp :: "'a ops \<Rightarrow> 'a solver_scheme \<Rightarrow> 'a solver_scheme" where
  "refine_setUp ops st =
     fold (\<lambda>b s. Block_setUpOutConstraints ops b (Block_setUpInConstraints ops b s)) (bs st) st"

text \<open>
  The test of lines 161 and 162 (and of lines 342 and 343) on the block \<open>b\<close>:
  \<^verbatim>\<open>c=b->findMinLM(); c!=NULL && c->lm<LAGRANGIAN_TOLERANCE\<close>.
\<close>

definition findMinLM_below_tolerance :: "'a ops \<Rightarrow> nat \<Rightarrow> 'a solver_scheme \<Rightarrow> bool" where
  "findMinLM_below_tolerance ops b st =
     (case Block_findMinLM ops b st of
        (None, st1) \<Rightarrow> False
      | (Some c, st1) \<Rightarrow> dlt (lm (constraints st1 c)) LAGRANGIAN_TOLERANCE)"

text \<open>
  Lines 159 to 175: the blocks are visited in order; the first block whose minimal
  multiplier is below \<^verbatim>\<open>LAGRANGIAN_TOLERANCE\<close> is split, and the visit ends there
  (\<^verbatim>\<open>break\<close>) with \<^verbatim>\<open>solved\<close> false. The result is \<^verbatim>\<open>solved\<close> and the state.
\<close>

fun refine_scan :: "'a ops \<Rightarrow> nat list \<Rightarrow> 'a solver_scheme \<Rightarrow> bool \<times> 'a solver_scheme" where
  "refine_scan ops [] st = (True, st)"
| "refine_scan ops (b # rest) st =
     (case Block_findMinLM ops b st of
        (None, st1) \<Rightarrow> refine_scan ops rest st1
      | (Some c, st1) \<Rightarrow>
          if dlt (lm (constraints st1 c)) LAGRANGIAN_TOLERANCE
          then (False, Blocks_cleanup ops (Blocks_split ops b c st1))
          else refine_scan ops rest st1)"

text \<open>
  The loop of lines 151 to 176 on its three variables: \<^verbatim>\<open>solved\<close>, \<^verbatim>\<open>maxtries\<close> and the
  solver state. \<^verbatim>\<open>maxtries\<close> is unsigned and starts at 100; a pass decrements it only
  when it is positive, so it never wraps.
\<close>

definition refine_guard :: "bool \<times> nat \<times> 'a solver_scheme \<Rightarrow> bool" where
  "refine_guard s = (case s of (solved, maxtries, st) \<Rightarrow> \<not> solved \<and> 0 < maxtries)"

definition refine_pass :: "'a ops \<Rightarrow> bool \<times> nat \<times> 'a solver_scheme \<Rightarrow> bool \<times> nat \<times> 'a solver_scheme" where
  "refine_pass ops s =
     (case s of (solved, maxtries, st) \<Rightarrow>
        (let st1 = refine_setUp ops st
         in case refine_scan ops (bs st1) st1 of (solved', st2) \<Rightarrow> (solved', maxtries - 1, st2)))"

function refine_while :: "'a ops \<Rightarrow> bool \<times> nat \<times> 'a solver_scheme \<Rightarrow> bool \<times> nat \<times> 'a solver_scheme" where
  "refine_while ops s = (if refine_guard s then refine_while ops (refine_pass ops s) else s)"
  by pat_completeness auto
termination
  by (relation "measure (\<lambda>(ops, s). fst (snd s))")
     (auto simp: refine_guard_def refine_pass_def Let_def split: prod.splits)

text \<open>Lines 177 to 182: the verification after the loop.\<close>

fun refine_verify :: "'a solver_scheme \<Rightarrow> nat list \<Rightarrow> error + unit" where
  "refine_verify st [] = Inr ()"
| "refine_verify st (c # rest) =
     (if dlt (slack st c) ZERO_UPPERBOUND
      then Inl (UnsatisfiedConstraint c)
      else refine_verify st rest)"

definition refine_split :: "'a ops \<Rightarrow> 'a solver_scheme \<Rightarrow> 'a solver_scheme" where
  "refine_split ops st = snd (snd (refine_while ops (False, 100, st)))"

definition Solver_refine :: "'a ops \<Rightarrow> 'a solver_scheme \<Rightarrow> error + 'a solver_scheme" where
  "Solver_refine ops st =
     (let st1 = refine_split ops st
      in case refine_verify st1 (cs st1) of
           Inl e \<Rightarrow> Inl e
         | Inr u \<Rightarrow> Inr st1)"

section \<open>Solver::solve\<close>

text \<open>Lines 190 to 195. The value of \<^verbatim>\<open>satisfy()\<close> is dropped.\<close>

definition Solver_solve :: "'a ops \<Rightarrow> 'a solver_scheme \<Rightarrow> error + (bool \<times> 'a solver_scheme)" where
  "Solver_solve ops st =
     (case Solver_satisfy ops st of
        Inl e \<Rightarrow> Inl e
      | Inr (a, st1) \<Rightarrow>
          (case Solver_refine ops st1 of
             Inl e \<Rightarrow> Inl e
           | Inr st2 \<Rightarrow>
               (let st3 = copyResult st2
                in Inr (length (bs st3) \<noteq> n st3, st3))))"

section \<open>IncSolver::moveBlocks and IncSolver::splitBlocks\<close>

text \<open>Lines 324 to 328.\<close>

definition moveBlocks :: "'a ops \<Rightarrow> 'a solver_scheme \<Rightarrow> 'a solver_scheme" where
  "moveBlocks ops st = fold (Block_updateWeightedPosition ops) (bs st) st"

text \<open>
  The body of the loop of lines 340 to 367 for the block \<open>b\<close> under the iterator. The inner
  \<^verbatim>\<open>b\<close> of line 349 is the block of \<^verbatim>\<open>v->left\<close>.
\<close>

definition splitBlocks_body :: "'a ops \<Rightarrow> nat \<Rightarrow> 'a solver_scheme \<Rightarrow> 'a solver_scheme" where
  "splitBlocks_body ops b st =
     (case Block_findMinLM ops b st of
        (None, st1) \<Rightarrow> st1
      | (Some v, st1) \<Rightarrow>
          if dlt (lm (constraints st1 v)) LAGRANGIAN_TOLERANCE
          then (let b' = block (variables st1 (left (constraints st1 v)))
                in case Block_split ops b' v st1 of
                     (l, r, st2) \<Rightarrow>
                       (let st3 = Block_updateWeightedPosition ops l st2;
                            st4 = Block_updateWeightedPosition ops r st3;
                            st5 = Blocks_insert ops l st4;
                            st6 = Blocks_insert ops r st5;
                            st7 = st6\<lparr>blocks := (blocks st6)(b' := (blocks st6 b')\<lparr>deleted := True\<rparr>)\<rparr>
                        in st7\<lparr>inactive := inactive st7 @ [v]\<rparr>))
          else st1)"

text \<open>
  The loop inserts into the set it iterates. The iterator stays on its element, and
  \<^verbatim>\<open>++i\<close> moves to the element that follows it in the set as it is then.
\<close>

fun set_begin :: "nat list \<Rightarrow> nat option" where
  "set_begin [] = None"
| "set_begin (x # xs) = Some x"

fun set_next :: "nat list \<Rightarrow> nat \<Rightarrow> nat option" where
  "set_next [] b = None"
| "set_next (x # xs) b = (if x = b then set_begin xs else set_next xs b)"

partial_function (option) splitBlocks_loop ::
  "'a ops \<Rightarrow> nat option \<Rightarrow> 'a solver_scheme \<Rightarrow> 'a solver_scheme option"
where
  "splitBlocks_loop ops i st =
     (case i of
        None \<Rightarrow> Some st
      | Some b \<Rightarrow>
          splitBlocks_loop ops (set_next (bs (splitBlocks_body ops b st)) b)
            (splitBlocks_body ops b st))"

definition splitBlocks :: "'a ops \<Rightarrow> 'a solver_scheme \<Rightarrow> 'a solver_scheme option" where
  "splitBlocks ops st =
     (case splitBlocks_loop ops (set_begin (bs (moveBlocks ops st))) (moveBlocks ops st) of
        None \<Rightarrow> None
      | Some st1 \<Rightarrow> Some (Blocks_cleanup ops st1))"

section \<open>IncSolver::satisfy\<close>

text \<open>
  The second operand of the loop condition, lines 237 and 238, for a non-null \<open>v\<close>:
  \<^verbatim>\<open>v->equality || v->slack() < ZERO_UPPERBOUND && !v->active\<close>.
\<close>

definition satisfy_cond :: "'a solver_scheme \<Rightarrow> nat \<Rightarrow> bool" where
  "satisfy_cond st v =
     (equality (constraints st v)
      \<or> (dlt (slack st v) ZERO_UPPERBOUND \<and> \<not> active (constraints st v)))"

definition set_unsatisfiable :: "nat \<Rightarrow> 'a solver_scheme \<Rightarrow> 'a solver_scheme" where
  "set_unsatisfiable v st =
     st\<lparr>constraints := (constraints st)(v := (constraints st v)\<lparr>unsatisfiable := True\<rparr>)\<rparr>"

text \<open>
  The body of the loop, lines 240 to 289, for the constraint \<open>v\<close>. The three
  \<^verbatim>\<open>continue\<close> statements leave the body before the cleanup of line 289.
\<close>

definition satisfy_body :: "'a ops \<Rightarrow> nat \<Rightarrow> 'a solver_scheme \<Rightarrow> 'a solver_scheme" where
  "satisfy_body ops v st =
     (let lb = block (variables st (left (constraints st v)));
          rb = block (variables st (right (constraints st v)))
      in if lb \<noteq> rb
         then Blocks_cleanup ops (snd (Block_merge ops lb rb v st))
         else if Block_isActiveDirectedPathBetween ops lb
                   (right (constraints st v)) (left (constraints st v)) st
         then set_unsatisfiable v st
         else (case Block_splitBetween ops lb
                      (left (constraints st v)) (right (constraints st v)) st of
                 Inl (path, st1) \<Rightarrow> set_unsatisfiable v st1
               | Inr (None, lb', rb', st1) \<Rightarrow> set_unsatisfiable v st1
               | Inr (Some splitConstraint, lb', rb', st1) \<Rightarrow>
                   (let st2 = st1\<lparr>inactive := inactive st1 @ [splitConstraint]\<rparr>
                    in Blocks_cleanup ops
                         (if dge (slack st2 v) (Finite 0)
                          then Blocks_insert ops rb'
                                 (Blocks_insert ops lb' (st2\<lparr>inactive := inactive st2 @ [v]\<rparr>))
                          else (case Block_merge ops lb' rb' v st2 of
                                  (b, st3) \<Rightarrow> Blocks_insert ops b st3)))))"

text \<open>
  The loop of lines 237 to 293. Each turn calls \<^verbatim>\<open>mostViolated(inactive)\<close>, which may
  shrink \<^verbatim>\<open>inactive\<close>, and stops on a null \<open>v\<close> or a false condition. Nothing bounds the
  number of turns, so the loop is a partial function: \<open>None\<close> is a run that never leaves it.
\<close>

partial_function (option) satisfy_loop ::
  "'a ops \<Rightarrow> 'a solver_scheme \<Rightarrow> (error + 'a solver_scheme) option"
where
  "satisfy_loop ops st =
     (case mostViolated st (inactive st) of
        Inl e \<Rightarrow> Some (Inl e)
      | Inr (None, l) \<Rightarrow> Some (Inr (st\<lparr>inactive := l\<rparr>))
      | Inr (Some v, l) \<Rightarrow>
          if satisfy_cond (st\<lparr>inactive := l\<rparr>) v
          then satisfy_loop ops (satisfy_body ops v (st\<lparr>inactive := l\<rparr>))
          else Some (Inr (st\<lparr>inactive := l\<rparr>)))"

text \<open>
  Lines 298 to 311: the verification of the incremental solver. Where lines 138 and 180
  throw \<^verbatim>\<open>UnsatisfiedConstraint\<close>, line 309 throws \<^verbatim>\<open>s.str().c_str()\<close>, a
  \<^verbatim>\<open>const char*\<close>.
\<close>

fun IncSolver_verify :: "'a solver_scheme \<Rightarrow> nat list \<Rightarrow> bool \<Rightarrow> error + bool" where
  "IncSolver_verify st [] activeConstraints = Inr activeConstraints"
| "IncSolver_verify st (v # rest) activeConstraints =
     (if dlt (slack st v) ZERO_UPPERBOUND
      then Inl ThrownCString
      else IncSolver_verify st rest
             (if active (constraints st v) then True else activeConstraints))"

text \<open>
  Lines 233 to 297: the state that the verification reads, when the two loops end.
\<close>

definition IncSolver_merge :: "'a ops \<Rightarrow> 'a solver_scheme \<Rightarrow> (error + 'a solver_scheme) option" where
  "IncSolver_merge ops st =
     (case splitBlocks ops st of
        None \<Rightarrow> None
      | Some st0 \<Rightarrow>
          (case satisfy_loop ops st0 of
             None \<Rightarrow> None
           | Some (Inl e) \<Rightarrow> Some (Inl e)
           | Some (Inr st1) \<Rightarrow> Some (Inr (Blocks_cleanup ops st1))))"

definition IncSolver_satisfy ::
  "'a ops \<Rightarrow> 'a solver_scheme \<Rightarrow> (error + (bool \<times> 'a solver_scheme)) option"
where
  "IncSolver_satisfy ops st =
     (case IncSolver_merge ops st of
        None \<Rightarrow> None
      | Some (Inl e) \<Rightarrow> Some (Inl e)
      | Some (Inr st2) \<Rightarrow>
          (case IncSolver_verify st2 (cs st2) False of
             Inl e \<Rightarrow> Some (Inl e)
           | Inr activeConstraints \<Rightarrow> Some (Inr (activeConstraints, copyResult st2))))"

section \<open>Example states\<close>

text \<open>
  Concrete solver states on which the theorems below are instantiated. A variable of weight
  and scale 1 in block \<open>b\<close> at offset \<open>off\<close>; a constraint \<open>r - l \<ge> g\<close>; a block at
  position 0.
\<close>

definition ex_variable :: "nat \<Rightarrow> real \<Rightarrow> variable" where
  "ex_variable b off =
     \<lparr>desiredPosition = Finite 0, weight = Finite 1, scale = Finite 1, offset = Finite off,
      block = b, finalPosition = Finite 0\<rparr>"

definition ex_constraint :: "nat \<Rightarrow> nat \<Rightarrow> real \<Rightarrow> bool \<Rightarrow> bool \<Rightarrow> constraint" where
  "ex_constraint l r g e a =
     \<lparr>left = l, right = r, gap = Finite g, equality = e, active = a, lm = Finite 0,
      unsatisfiable = False\<rparr>"

definition ex_block :: "nat list \<Rightarrow> block_obj" where
  "ex_block xs = \<lparr>vars = xs, posn = Finite 0, deleted = False\<rparr>"

text \<open>
  Two variables, each alone in its block (variable \<open>v\<close> in block \<open>v\<close>), both at position
  0, with the constraints \<open>f\<close> and the inactive list \<open>l\<close>.
\<close>

definition ex_separate :: "(nat \<Rightarrow> constraint) \<Rightarrow> nat list \<Rightarrow> solver" where
  "ex_separate f l =
     \<lparr>variables = (\<lambda>v. ex_variable v 0), constraints = f, blocks = (\<lambda>b. ex_block [b]),
      bs = [0, 1], vs = [0, 1], cs = [0, 1], inactive = l\<rparr>"

text \<open>
  Two variables in one block, variable \<open>v\<close> at offset \<open>v\<close>: variable 0 at position 0 and
  variable 1 at position 1.
\<close>

definition ex_joined :: "(nat \<Rightarrow> constraint) \<Rightarrow> nat list \<Rightarrow> solver" where
  "ex_joined f l =
     \<lparr>variables = (\<lambda>v. ex_variable 0 (real v)), constraints = f, blocks = (\<lambda>b. ex_block [0, 1]),
      bs = [0], vs = [0, 1], cs = [0, 1], inactive = l\<rparr>"

text \<open>Constraint 0 asks \<open>x1 - x0 \<ge> -3\<close>, constraint 1 asks \<open>x1 - x0 \<ge> 5\<close>.\<close>

definition ex_two_gaps :: "nat \<Rightarrow> constraint" where
  "ex_two_gaps c = (if c = 0 then ex_constraint 0 1 (- 3) False False
                    else ex_constraint 0 1 5 False False)"

text \<open>Every constraint asks \<open>x1 - x0 \<ge> -DBL_MAX\<close>: its slack is \<^verbatim>\<open>DBL_MAX\<close>.\<close>

definition ex_huge_slack :: "nat \<Rightarrow> constraint" where
  "ex_huge_slack c = ex_constraint 0 1 (- DBL_MAX) False False"

text \<open>
  Block operations that leave the state as it is: nothing is merged or split, no block has
  a constraint to split on, and every query for an active directed path answers yes.
\<close>

definition ex_ops :: "unit ops" where
  "ex_ops =
     \<lparr>Blocks_totalOrder = vs,
      Blocks_mergeLeft = (\<lambda>b st. st),
      Blocks_cleanup = (\<lambda>st. st),
      Blocks_split = (\<lambda>b c st. st),
      Blocks_insert = (\<lambda>b st. st),
      Block_setUpInConstraints = (\<lambda>b st. st),
      Block_setUpOutConstraints = (\<lambda>b st. st),
      Block_findMinLM = (\<lambda>b st. (None, st)),
      Block_merge = (\<lambda>l r c st. (l, st)),
      Block_isActiveDirectedPathBetween = (\<lambda>b u v st. True),
      Block_splitBetween = (\<lambda>b u v st. Inr (None, b, b, st)),
      Block_updateWeightedPosition = (\<lambda>b st. st),
      Block_split = (\<lambda>b c st. (b, b, st))\<rparr>"

text \<open>Every constraint is the active equality \<open>x1 - x0 = 1\<close>.\<close>

definition ex_active_equality :: "nat \<Rightarrow> constraint" where
  "ex_active_equality c = ex_constraint 0 1 1 True True"

text \<open>Every constraint asks \<open>x1 - x0 \<ge> -3\<close>.\<close>

definition ex_satisfied :: "nat \<Rightarrow> constraint" where
  "ex_satisfied c = ex_constraint 0 1 (- 3) False False"

text \<open>
  A cycle: constraint 0 asks \<open>x1 - x0 \<ge> 1\<close> and is active, constraint 1 asks
  \<open>x0 - x1 \<ge> 1\<close> and is not.
\<close>

definition ex_cycle :: "nat \<Rightarrow> constraint" where
  "ex_cycle c = (if c = 0 then ex_constraint 0 1 1 False True
                 else ex_constraint 1 0 1 False False)"

text \<open>
  Block operations for a split: no active directed path is found, and
  \<^verbatim>\<open>splitBetween\<close> frees constraint 0 and reports the halves 0 and 1. In \<open>ex_split_ops\<close>
  the split leaves the positions as they are; in \<open>ex_split_apart_ops\<close> it moves variable 1
  into block 1 at offset \<open>-1\<close>.
\<close>

definition ex_split_ops :: "unit ops" where
  "ex_split_ops =
     ex_ops\<lparr>Block_isActiveDirectedPathBetween := (\<lambda>b u v st. False),
            Block_splitBetween := (\<lambda>b u v st. Inr (Some 0, 0, 1, st))\<rparr>"

definition ex_split_apart_ops :: "unit ops" where
  "ex_split_apart_ops =
     ex_ops\<lparr>Block_isActiveDirectedPathBetween := (\<lambda>b u v st. False),
            Block_splitBetween :=
              (\<lambda>b u v st. Inr (Some 0, 0, 1, st\<lparr>variables := (variables st)(1 := ex_variable 1 (- 1))\<rparr>))\<rparr>"

text \<open>Block operations for a split that finds nothing to free.\<close>

definition ex_no_split_ops :: "unit ops" where
  "ex_no_split_ops = ex_ops\<lparr>Block_isActiveDirectedPathBetween := (\<lambda>b u v st. False)\<rparr>"

text \<open>Every constraint has the gap NaN, and so the slack NaN.\<close>

definition ex_nan_gap :: "nat \<Rightarrow> constraint" where
  "ex_nan_gap c =
     \<lparr>left = 0, right = 1, gap = NaN, equality = False, active = False, lm = Finite 0,
      unsatisfiable = False\<rparr>"

text \<open>
  Constraint 0 asks \<open>x1 - x0 \<ge> 5\<close> and is active: in \<open>ex_joined\<close>, where the two
  variables are 1 apart, its slack is \<open>-4\<close>, as after the gap of an active constraint has
  been raised between two calls. Constraint 1 asks \<open>x1 - x0 \<ge> -3\<close> and is not active.
\<close>

definition ex_raised_gap :: "nat \<Rightarrow> constraint" where
  "ex_raised_gap c = (if c = 0 then ex_constraint 0 1 5 False True
                      else ex_constraint 0 1 (- 3) False False)"

text \<open>
  Block operations under which every block always has a constraint to split on: constraint
  0, whose multiplier in \<open>ex_negative_lm\<close> is \<open>-1\<close>.
\<close>

definition ex_always_split_ops :: "unit ops" where
  "ex_always_split_ops = ex_ops\<lparr>Block_findMinLM := (\<lambda>b st. (Some 0, st))\<rparr>"

definition ex_negative_lm :: "nat \<Rightarrow> constraint" where
  "ex_negative_lm c = (ex_constraint 0 1 (- 3) False True)\<lparr>lm := Finite (- 1)\<rparr>"

section \<open>Facts about double\<close>

lemma dlt_irrefl: "\<not> dlt x x"
  by (cases x) simp_all

lemma dlt_trans: "dlt x y \<Longrightarrow> dlt y z \<Longrightarrow> dlt x z"
  by (cases x; cases y; cases z) simp_all

lemma dlt_asym: "dlt x y \<Longrightarrow> \<not> dlt y x"
  by (cases x; cases y) simp_all



lemma dlt_not_dge: "dlt x y \<Longrightarrow> \<not> dge x y"
  by (cases x; cases y) (simp_all add: dge_def)


lemma not_dlt_dge: "\<not> dlt x (Finite z) \<Longrightarrow> dge x (Finite z) \<or> x = NaN"
  by (cases x) (auto simp: dge_def)

lemma deq_self: "deq x x = (x \<noteq> NaN)"
  by (cases x) simp_all

lemma fl_not_NaN: "fl r \<noteq> NaN"
  by (simp add: fl_def)

lemma DBL_MAX_large: "1000000 < DBL_MAX"
proof -
  have "(1000000::real) < 2 ^ 53 - 1" by simp
  also have "\<dots> = (2 ^ 53 - 1) * 1" by simp
  also have "\<dots> \<le> (2 ^ 53 - 1) * 2 ^ 971"
    by (rule mult_left_mono) simp_all
  finally show ?thesis by (simp only: DBL_MAX_def)
qed

lemma fl_small: "\<bar>r\<bar> \<le> 1000000 \<Longrightarrow> fl r = Finite r"
  using DBL_MAX_large by (simp add: fl_def abs_le_iff)

lemma fl_DBL_MAX: "fl DBL_MAX = Finite DBL_MAX"
  using DBL_MAX_large by (simp add: fl_def)

lemma small_lt_DBL_MAX: "\<bar>r\<bar> \<le> 1000000 \<Longrightarrow> r < DBL_MAX"
  using DBL_MAX_large by (simp add: abs_le_iff)

lemmas ex_defs =
  ex_variable_def ex_constraint_def ex_block_def ex_separate_def ex_joined_def
  ex_two_gaps_def ex_huge_slack_def ex_ops_def ex_active_equality_def ex_satisfied_def
  ex_cycle_def ex_split_ops_def ex_split_apart_ops_def ex_no_split_ops_def ex_nan_gap_def
  ex_raised_gap_def ex_always_split_ops_def ex_negative_lm_def

lemmas double_evals =
  position_def slack_def dsub_def fl_small fl_DBL_MAX small_lt_DBL_MAX
  ZERO_UPPERBOUND_def LAGRANGIAN_TOLERANCE_def dge_def

section \<open>IncSolver::mostViolated\<close>

lemma scan_equality:
  "\<exists>c\<in>set l. equality (constraints st c) \<Longrightarrow>
   mostViolated_scan st l i acc =
     (let k = length (takeWhile (\<lambda>c. \<not> equality (constraints st c)) l)
      in (slack st (l ! k), Some (l ! k), Some (i + k)))"
proof (induction l arbitrary: i acc)
  case Nil
  then show ?case by simp
next
  case (Cons c rest)
  obtain ms v dp where acc: "acc = (ms, v, dp)" by (cases acc) auto
  show ?case
  proof (cases "equality (constraints st c)")
    case True
    then show ?thesis by (simp add: acc)
  next
    case False
    with Cons.prems have ex: "\<exists>c\<in>set rest. equality (constraints st c)" by auto
    show ?thesis using False Cons.IH [OF ex] by (simp add: acc Let_def)
  qed
qed

lemma scan_no_equality:
  "\<forall>c\<in>set l. \<not> equality (constraints st c) \<Longrightarrow>
   (mostViolated_scan st l i (ms, v, dp) = (ms, v, dp) \<and> (\<forall>c\<in>set l. \<not> dlt (slack st c) ms)) \<or>
   (\<exists>k<length l. mostViolated_scan st l i (ms, v, dp) = (slack st (l ! k), Some (l ! k), Some (i + k))
       \<and> dlt (slack st (l ! k)) ms
       \<and> (\<forall>c\<in>set l. \<not> dlt (slack st c) (slack st (l ! k))))"
proof (induction l arbitrary: i ms v dp)
  case Nil
  then show ?case by simp
next
  case (Cons c rest)
  from Cons.prems have ne: "\<not> equality (constraints st c)"
    and rest: "\<forall>c\<in>set rest. \<not> equality (constraints st c)" by auto
  show ?case
  proof (cases "dlt (slack st c) ms")
    case True
    from Cons.IH [OF rest, of "Suc i" "slack st c" "Some c" "Some i"]
    show ?thesis
    proof
      assume a: "mostViolated_scan st rest (Suc i) (slack st c, Some c, Some i) = (slack st c, Some c, Some i)
         \<and> (\<forall>c'\<in>set rest. \<not> dlt (slack st c') (slack st c))"
      have "0 < length (c # rest)" by simp
      moreover have "mostViolated_scan st (c # rest) i (ms, v, dp)
          = (slack st ((c # rest) ! 0), Some ((c # rest) ! 0), Some (i + 0))"
        using a ne True by simp
      moreover have "dlt (slack st ((c # rest) ! 0)) ms" using True by simp
      moreover have "\<forall>c'\<in>set (c # rest). \<not> dlt (slack st c') (slack st ((c # rest) ! 0))"
        using a by (simp add: dlt_irrefl)
      ultimately show ?thesis by blast
    next
      assume "\<exists>k<length rest.
         mostViolated_scan st rest (Suc i) (slack st c, Some c, Some i)
           = (slack st (rest ! k), Some (rest ! k), Some (Suc i + k))
         \<and> dlt (slack st (rest ! k)) (slack st c)
         \<and> (\<forall>c'\<in>set rest. \<not> dlt (slack st c') (slack st (rest ! k)))"
      then obtain k where k: "k < length rest"
        and r: "mostViolated_scan st rest (Suc i) (slack st c, Some c, Some i)
           = (slack st (rest ! k), Some (rest ! k), Some (Suc i + k))"
        and lt: "dlt (slack st (rest ! k)) (slack st c)"
        and mn: "\<forall>c'\<in>set rest. \<not> dlt (slack st c') (slack st (rest ! k))" by blast
      have "Suc k < length (c # rest)" using k by simp
      moreover have "mostViolated_scan st (c # rest) i (ms, v, dp)
          = (slack st ((c # rest) ! Suc k), Some ((c # rest) ! Suc k), Some (i + Suc k))"
        using r ne True by simp
      moreover have "dlt (slack st ((c # rest) ! Suc k)) ms"
        using dlt_trans [OF lt True] by simp
      moreover have "\<forall>c'\<in>set (c # rest). \<not> dlt (slack st c') (slack st ((c # rest) ! Suc k))"
        using mn dlt_asym [OF lt] by simp
      ultimately show ?thesis by blast
    qed
  next
    case False
    from Cons.IH [OF rest, of "Suc i" ms v dp]
    show ?thesis
    proof
      assume a: "mostViolated_scan st rest (Suc i) (ms, v, dp) = (ms, v, dp)
         \<and> (\<forall>c'\<in>set rest. \<not> dlt (slack st c') ms)"
      then show ?thesis using ne False by simp
    next
      assume "\<exists>k<length rest.
         mostViolated_scan st rest (Suc i) (ms, v, dp)
           = (slack st (rest ! k), Some (rest ! k), Some (Suc i + k))
         \<and> dlt (slack st (rest ! k)) ms
         \<and> (\<forall>c'\<in>set rest. \<not> dlt (slack st c') (slack st (rest ! k)))"
      then obtain k where k: "k < length rest"
        and r: "mostViolated_scan st rest (Suc i) (ms, v, dp)
           = (slack st (rest ! k), Some (rest ! k), Some (Suc i + k))"
        and lt: "dlt (slack st (rest ! k)) ms"
        and mn: "\<forall>c'\<in>set rest. \<not> dlt (slack st c') (slack st (rest ! k))" by blast
      have "Suc k < length (c # rest)" using k by simp
      moreover have "mostViolated_scan st (c # rest) i (ms, v, dp)
          = (slack st ((c # rest) ! Suc k), Some ((c # rest) ! Suc k), Some (i + Suc k))"
        using r ne False by simp
      moreover have "dlt (slack st ((c # rest) ! Suc k)) ms" using lt by simp
      moreover have "\<not> dlt (slack st c) (slack st (rest ! k))"
        using False dlt_trans [OF _ lt] by blast
      then have "\<forall>c'\<in>set (c # rest). \<not> dlt (slack st c') (slack st ((c # rest) ! Suc k))"
        using mn by simp
      ultimately show ?thesis by blast
    qed
  qed
qed

lemma takeWhile_first:
  assumes "\<exists>c\<in>set l. P c"
  shows "length (takeWhile (\<lambda>c. \<not> P c) l) < length l"
    and "P (l ! length (takeWhile (\<lambda>c. \<not> P c) l))"
    and "\<forall>j<length (takeWhile (\<lambda>c. \<not> P c) l). \<not> P (l ! j)"
proof -
  have "takeWhile (\<lambda>c. \<not> P c) l \<noteq> l"
    using assms by (simp add: takeWhile_eq_all_conv)
  then show lt: "length (takeWhile (\<lambda>c. \<not> P c) l) < length l"
    using length_takeWhile_le [of "\<lambda>c. \<not> P c" l] takeWhile_eq_take [of "\<lambda>c. \<not> P c" l]
    by (cases "length (takeWhile (\<lambda>c. \<not> P c) l) = length l") auto
  show "P (l ! length (takeWhile (\<lambda>c. \<not> P c) l))"
    using nth_length_takeWhile [OF lt] by simp
  show "\<forall>j<length (takeWhile (\<lambda>c. \<not> P c) l). \<not> P (l ! j)"
  proof (intro allI impI)
    fix j assume j: "j < length (takeWhile (\<lambda>c. \<not> P c) l)"
    then have "takeWhile (\<lambda>c. \<not> P c) l ! j \<in> set (takeWhile (\<lambda>c. \<not> P c) l)" by simp
    then have "\<not> P (takeWhile (\<lambda>c. \<not> P c) l ! j)" by (rule set_takeWhileD [THEN conjunct2])
    then show "\<not> P (l ! j)" using takeWhile_nth [OF j] by simp
  qed
qed

lemma mostViolated_winner:
  assumes "\<exists>c\<in>set l. equality (constraints st c) \<or> dlt (slack st c) (Finite DBL_MAX)"
  shows "\<exists>i<length l.
           mostViolated st l =
             Inr (Some (l ! i),
                  if equality (constraints st (l ! i))
                     \<or> (\<not> active (constraints st (l ! i)) \<and> dlt (slack st (l ! i)) ZERO_UPPERBOUND)
                  then swap_remove l i else l)
         \<and> (\<forall>j<i. \<not> equality (constraints st (l ! j)))
         \<and> (equality (constraints st (l ! i))
            \<or> (dlt (slack st (l ! i)) (Finite DBL_MAX)
                \<and> (\<forall>c\<in>set l. \<not> equality (constraints st c) \<and> \<not> dlt (slack st c) (slack st (l ! i)))))"
proof (cases "\<exists>c\<in>set l. equality (constraints st c)")
  case True
  let ?k = "length (takeWhile (\<lambda>c. \<not> equality (constraints st c)) l)"
  from takeWhile_first [of l "\<lambda>c. equality (constraints st c)", OF True]
  have k: "?k < length l" and e: "equality (constraints st (l ! ?k))"
    and b: "\<forall>j<?k. \<not> equality (constraints st (l ! j))" by auto
  have "mostViolated_scan st l 0 (Finite DBL_MAX, None, None)
          = (slack st (l ! ?k), Some (l ! ?k), Some ?k)"
    using scan_equality [OF True, of 0 "(Finite DBL_MAX, None, None)"] by (simp add: Let_def)
  then have "mostViolated st l = Inr (Some (l ! ?k), swap_remove l ?k)"
    using e by (simp add: mostViolated_def)
  with k e b show ?thesis by auto
next
  case False
  then have ne: "\<forall>c\<in>set l. \<not> equality (constraints st c)" by blast
  with assms have "\<not> (\<forall>c\<in>set l. \<not> dlt (slack st c) (Finite DBL_MAX))" by blast
  with scan_no_equality [OF ne, of 0 "Finite DBL_MAX" None None]
  obtain k where k: "k < length l"
    and r: "mostViolated_scan st l 0 (Finite DBL_MAX, None, None)
              = (slack st (l ! k), Some (l ! k), Some k)"
    and lt: "dlt (slack st (l ! k)) (Finite DBL_MAX)"
    and mn: "\<forall>c\<in>set l. \<not> dlt (slack st c) (slack st (l ! k))" by auto
  have nek: "\<not> equality (constraints st (l ! k))" using ne k by simp
  have "mostViolated st l =
          Inr (Some (l ! k),
               if equality (constraints st (l ! k))
                  \<or> (\<not> active (constraints st (l ! k)) \<and> dlt (slack st (l ! k)) ZERO_UPPERBOUND)
               then swap_remove l k else l)"
    using r nek by (simp add: mostViolated_def)
  moreover have "\<forall>j<k. \<not> equality (constraints st (l ! j))" using ne k by simp
  ultimately show ?thesis using k ne lt mn by blast
qed

lemma mostViolated_null:
  assumes "\<forall>c\<in>set l. \<not> equality (constraints st c) \<and> \<not> dlt (slack st c) (Finite DBL_MAX)"
  shows "mostViolated st l = Inr (None, l)"
proof -
  from assms have ne: "\<forall>c\<in>set l. \<not> equality (constraints st c)" by blast
  from scan_no_equality [OF ne, of 0 "Finite DBL_MAX" None None] assms
  have "mostViolated_scan st l 0 (Finite DBL_MAX, None, None) = (Finite DBL_MAX, None, None)"
    by (metis nth_mem)
  then show ?thesis by (simp add: mostViolated_def)
qed

lemma mostViolated_no_null_dereference: "mostViolated st l \<noteq> Inl NullDereference"
proof (cases "\<exists>c\<in>set l. equality (constraints st c) \<or> dlt (slack st c) (Finite DBL_MAX)")
  case True
  from mostViolated_winner [OF True] show ?thesis by auto
next
  case False
  then have "mostViolated st l = Inr (None, l)" by (intro mostViolated_null) blast
  then show ?thesis by simp
qed



text \<open>
  C3, as amended. The scan starts from \<^verbatim>\<open>minSlack = DBL_MAX\<close> and replaces the winner only
  on a strictly smaller slack. So if the list \<open>l\<close> holds an equality constraint or a
  constraint whose slack is below \<^verbatim>\<open>DBL_MAX\<close>, \<^verbatim>\<open>mostViolated(l)\<close> returns the element
  at some position \<open>i\<close>: no equality constraint stands before \<open>i\<close>, and either the winner is
  an equality constraint (the first of the list) or the list holds no equality constraint,
  the winner's slack is below \<^verbatim>\<open>DBL_MAX\<close> and no element has a smaller slack. The
  winner is removed by moving the last element over position \<open>i\<close> exactly if it is an
  equality constraint, or it is not active and its slack is below \<^verbatim>\<open>ZERO_UPPERBOUND\<close>;
  otherwise the list is unchanged. If the list holds no equality constraint and no slack
  below \<^verbatim>\<open>DBL_MAX\<close>, the function returns null and the list is unchanged, also when the
  list is not empty.
\<close>

theorem mostViolated_returns_first_equality_or_least_slack:
  "((\<exists>c\<in>set l. equality (constraints st c) \<or> dlt (slack st c) (Finite DBL_MAX)) \<longrightarrow>
     (\<exists>i<length l.
           mostViolated st l =
             Inr (Some (l ! i),
                  if equality (constraints st (l ! i))
                     \<or> (\<not> active (constraints st (l ! i)) \<and> dlt (slack st (l ! i)) ZERO_UPPERBOUND)
                  then swap_remove l i else l)
         \<and> (\<forall>j<i. \<not> equality (constraints st (l ! j)))
         \<and> (equality (constraints st (l ! i))
            \<or> (dlt (slack st (l ! i)) (Finite DBL_MAX)
                \<and> (\<forall>c\<in>set l. \<not> equality (constraints st c) \<and> \<not> dlt (slack st c) (slack st (l ! i)))))))
   \<and> ((\<forall>c\<in>set l. \<not> equality (constraints st c) \<and> \<not> dlt (slack st c) (Finite DBL_MAX)) \<longrightarrow>
        mostViolated st l = Inr (None, l))"
  using mostViolated_winner [of l st] mostViolated_null [of l st] by blast

theorem mostViolated_returns_first_equality_or_least_slack_witness:
  "mostViolated (ex_separate ex_two_gaps [0, 1]) [0, 1] = Inr (Some 1, [0])
   \<and> slack (ex_separate ex_two_gaps [0, 1]) 0 = Finite 3
   \<and> slack (ex_separate ex_two_gaps [0, 1]) 1 = Finite (- 5)
   \<and> mostViolated (ex_separate ex_huge_slack [0]) [0] = Inr (None, [0])"
proof -
  let ?st = "ex_separate ex_two_gaps [0, 1]"
  let ?hu = "ex_separate ex_huge_slack [0]"
  have s0: "slack ?st 0 = Finite 3" and s1: "slack ?st 1 = Finite (- 5)"
    by (simp_all add: ex_defs double_evals)
  have ne: "\<not> equality (constraints ?st 0)" "\<not> equality (constraints ?st 1)"
    "\<not> active (constraints ?st 1)"
    by (simp_all add: ex_defs)
  have h1: "\<exists>c\<in>set [0, 1]. equality (constraints ?st c) \<or> dlt (slack ?st c) (Finite DBL_MAX)"
    using s1 by (simp add: small_lt_DBL_MAX)
  from mostViolated_returns_first_equality_or_least_slack [of "[0, 1]" ?st] h1
  obtain i where i: "i < length [0, 1::nat]"
    and r: "mostViolated ?st [0, 1] =
             Inr (Some ([0, 1] ! i),
                  if equality (constraints ?st ([0, 1] ! i))
                     \<or> (\<not> active (constraints ?st ([0, 1] ! i)) \<and> dlt (slack ?st ([0, 1] ! i)) ZERO_UPPERBOUND)
                  then swap_remove [0, 1] i else [0, 1])"
    and mn: "equality (constraints ?st ([0, 1] ! i))
            \<or> (dlt (slack ?st ([0, 1] ! i)) (Finite DBL_MAX)
                \<and> (\<forall>c\<in>set [0, 1]. \<not> equality (constraints ?st c) \<and> \<not> dlt (slack ?st c) (slack ?st ([0, 1] ! i))))"
    by blast
  have "i \<noteq> 0"
  proof
    assume "i = 0"
    with mn ne s0 s1 show False by simp
  qed
  with i have i1: "i = 1" by simp
  have a: "mostViolated ?st [0, 1] = Inr (Some 1, [0])"
    using r ne s1 unfolding i1 by (simp add: swap_remove_def ZERO_UPPERBOUND_def)
  have h2: "\<forall>c\<in>set [0]. \<not> equality (constraints ?hu c) \<and> \<not> dlt (slack ?hu c) (Finite DBL_MAX)"
    by (simp add: ex_defs double_evals)
  have b: "mostViolated ?hu [0] = Inr (None, [0])"
    using mostViolated_returns_first_equality_or_least_slack [of "[0]" ?hu] h2 by blast
  from a s0 s1 b show ?thesis by simp
qed

theorem mostViolated_nonempty_null_counterexample:
  "[0::nat] \<noteq> []
   \<and> slack (ex_separate ex_huge_slack [0]) 0 = Finite DBL_MAX
   \<and> mostViolated (ex_separate ex_huge_slack [0]) [0] = Inr (None, [0])"
  by (simp add: mostViolated_def ex_defs double_evals)

text \<open>
  C9. On the empty list \<^verbatim>\<open>mostViolated\<close> returns null and leaves the list empty; the test
  of line 402 stops at \<^verbatim>\<open>deletePoint != end\<close>, so the null \<^verbatim>\<open>v\<close> is not read.
\<close>

theorem mostViolated_empty:
  "mostViolated st [] = Inr (None, []) \<and> mostViolated st [] \<noteq> Inl NullDereference"
  by (simp add: mostViolated_def)

section \<open>The merge loop of IncSolver::satisfy\<close>

lemma position_inactive [simp]: "position (st\<lparr>inactive := l\<rparr>) v = position st v"
  by (simp add: position_def)

lemma slack_inactive [simp]: "slack (st\<lparr>inactive := l\<rparr>) c = slack st c"
  by (simp add: slack_def)

lemma satisfy_cond_inactive [simp]: "satisfy_cond (st\<lparr>inactive := l\<rparr>) v = satisfy_cond st v"
  by (simp add: satisfy_cond_def)


lemma satisfy_loop_stop:
  "mostViolated st (inactive st) = Inr (Some v, l) \<Longrightarrow> \<not> satisfy_cond st v \<Longrightarrow>
   satisfy_loop ops st = Some (Inr (st\<lparr>inactive := l\<rparr>))"
  by (subst satisfy_loop.simps) simp

lemma satisfy_loop_turn:
  "mostViolated st (inactive st) = Inr (Some v, l) \<Longrightarrow> satisfy_cond st v \<Longrightarrow>
   satisfy_loop ops st = satisfy_loop ops (satisfy_body ops v (st\<lparr>inactive := l\<rparr>))"
  by (subst satisfy_loop.simps) simp






text \<open>
  C6. In a turn of the loop whose most violated constraint \<open>v\<close> has both ends in one block
  and for which the block finds no active directed path from \<open>v.right\<close> to \<open>v.left\<close>: if
  \<^verbatim>\<open>splitBetween\<close> returns a constraint \<open>c\<close> with the halves \<open>lb\<close> and \<open>rb\<close>, then \<open>c\<close>
  is appended to the inactive list, and with a slack of \<open>v\<close> of at least 0 after the split
  \<open>v\<close> is appended too and \<open>lb\<close>, then \<open>rb\<close> are inserted into the block set, while with a
  slack below 0 the halves are merged over \<open>v\<close> and the merged block is inserted; the
  cleanup follows in both cases. If \<^verbatim>\<open>splitBetween\<close> returns null, \<open>v\<close> is marked
  unsatisfiable in the state the call left and the turn ends. The loop goes on with the
  state of the body.
\<close>

theorem satisfy_split_within_block:
  assumes mv: "mostViolated st (inactive st) = Inr (Some v, l)"
    and cond: "satisfy_cond st v"
    and same: "block (variables st (left (constraints st v)))
                 = block (variables st (right (constraints st v)))"
    and nopath: "\<not> Block_isActiveDirectedPathBetween ops (block (variables st (left (constraints st v))))
                 (right (constraints st v)) (left (constraints st v)) (st\<lparr>inactive := l\<rparr>)"
  shows "(\<forall>c lb rb st1.
            Block_splitBetween ops (block (variables st (left (constraints st v))))
              (left (constraints st v)) (right (constraints st v)) (st\<lparr>inactive := l\<rparr>)
              = Inr (Some c, lb, rb, st1) \<longrightarrow>
            (dge (slack st1 v) (Finite 0) \<longrightarrow>
               satisfy_body ops v (st\<lparr>inactive := l\<rparr>) =
                 Blocks_cleanup ops
                   (Blocks_insert ops rb
                      (Blocks_insert ops lb (st1\<lparr>inactive := inactive st1 @ [c, v]\<rparr>))))
          \<and> (dlt (slack st1 v) (Finite 0) \<longrightarrow>
               satisfy_body ops v (st\<lparr>inactive := l\<rparr>) =
                 Blocks_cleanup ops
                   (Blocks_insert ops
                      (fst (Block_merge ops lb rb v (st1\<lparr>inactive := inactive st1 @ [c]\<rparr>)))
                      (snd (Block_merge ops lb rb v (st1\<lparr>inactive := inactive st1 @ [c]\<rparr>))))))
       \<and> (\<forall>lb rb st1.
            Block_splitBetween ops (block (variables st (left (constraints st v))))
              (left (constraints st v)) (right (constraints st v)) (st\<lparr>inactive := l\<rparr>)
              = Inr (None, lb, rb, st1) \<longrightarrow>
            satisfy_body ops v (st\<lparr>inactive := l\<rparr>) = set_unsatisfiable v st1)
       \<and> satisfy_loop ops st = satisfy_loop ops (satisfy_body ops v (st\<lparr>inactive := l\<rparr>))"
  using same nopath satisfy_loop_turn [OF mv cond, of ops]
  by (auto simp: satisfy_body_def Let_def dlt_not_dge split: prod.splits)

theorem satisfy_split_within_block_witness:
  "inactive (satisfy_body ex_split_apart_ops 1 (ex_joined ex_cycle [])) = [0, 1]
   \<and> inactive (satisfy_body ex_split_ops 1 (ex_joined ex_cycle [])) = [0]
   \<and> unsatisfiable (constraints (satisfy_body ex_no_split_ops 1 (ex_joined ex_cycle [])) 1)"
proof -
  let ?C = "ex_joined ex_cycle [1]" and ?A = "ex_joined ex_cycle []"
  let ?st1 = "?A\<lparr>variables := (variables ?A)(1 := ex_variable 1 (- 1))\<rparr>"
  have mv: "mostViolated ?C (inactive ?C) = Inr (Some 1, [])"
    by (simp add: mostViolated_def ex_defs double_evals swap_remove_def)
  have cond: "satisfy_cond ?C 1"
    by (simp add: satisfy_cond_def ex_defs double_evals)
  have same: "block (variables ?C (left (constraints ?C 1)))
                = block (variables ?C (right (constraints ?C 1)))"
    by (simp add: ex_defs)
  have uc: "?C\<lparr>inactive := []\<rparr> = ?A" by (simp add: ex_defs)
  have np: "\<not> Block_isActiveDirectedPathBetween ops (block (variables ?C (left (constraints ?C 1))))
              (right (constraints ?C 1)) (left (constraints ?C 1)) (?C\<lparr>inactive := []\<rparr>)"
    if "ops \<in> {ex_split_apart_ops, ex_split_ops, ex_no_split_ops}" for ops
    using that by (auto simp: ex_defs)
  have sp1: "Block_splitBetween ex_split_apart_ops (block (variables ?C (left (constraints ?C 1))))
              (left (constraints ?C 1)) (right (constraints ?C 1)) (?C\<lparr>inactive := []\<rparr>)
              = Inr (Some 0, 0, 1, ?st1)"
    by (simp add: ex_defs)
  have sl1: "dge (slack ?st1 1) (Finite 0)"
    by (simp add: ex_defs double_evals)
  have sp2: "Block_splitBetween ex_split_ops (block (variables ?C (left (constraints ?C 1))))
              (left (constraints ?C 1)) (right (constraints ?C 1)) (?C\<lparr>inactive := []\<rparr>)
              = Inr (Some 0, 0, 1, ?A)"
    by (simp add: ex_defs)
  have sl2: "dlt (slack ?A 1) (Finite 0)"
    by (simp add: ex_defs double_evals)
  have sp3: "Block_splitBetween ex_no_split_ops (block (variables ?C (left (constraints ?C 1))))
              (left (constraints ?C 1)) (right (constraints ?C 1)) (?C\<lparr>inactive := []\<rparr>)
              = Inr (None, 0, 0, ?A)"
    by (simp add: ex_defs)
  from satisfy_split_within_block [OF mv cond same np, of ex_split_apart_ops] sp1 sl1
  have "satisfy_body ex_split_apart_ops 1 (?C\<lparr>inactive := []\<rparr>) =
          Blocks_cleanup ex_split_apart_ops
            (Blocks_insert ex_split_apart_ops 1
               (Blocks_insert ex_split_apart_ops 0 (?st1\<lparr>inactive := inactive ?st1 @ [0, 1]\<rparr>)))"
    by blast
  then have 1: "inactive (satisfy_body ex_split_apart_ops 1 ?A) = [0, 1]"
    unfolding uc by (simp add: ex_defs)
  from satisfy_split_within_block [OF mv cond same np, of ex_split_ops] sp2 sl2
  have "satisfy_body ex_split_ops 1 (?C\<lparr>inactive := []\<rparr>) =
          Blocks_cleanup ex_split_ops
            (Blocks_insert ex_split_ops
               (fst (Block_merge ex_split_ops 0 1 1 (?A\<lparr>inactive := inactive ?A @ [0]\<rparr>)))
               (snd (Block_merge ex_split_ops 0 1 1 (?A\<lparr>inactive := inactive ?A @ [0]\<rparr>))))"
    by blast
  then have 2: "inactive (satisfy_body ex_split_ops 1 ?A) = [0]"
    unfolding uc by (simp add: ex_defs)
  from satisfy_split_within_block [OF mv cond same np, of ex_no_split_ops] sp3
  have "satisfy_body ex_no_split_ops 1 (?C\<lparr>inactive := []\<rparr>) = set_unsatisfiable 1 ?A"
    by blast
  then have 3: "unsatisfiable (constraints (satisfy_body ex_no_split_ops 1 ?A) 1)"
    unfolding uc by (simp add: set_unsatisfiable_def)
  from 1 2 3 show ?thesis by simp
qed

section \<open>Solver::refine\<close>

lemma refine_scan_solved:
  "fst (refine_scan ops bl st) =
     (\<forall>pre b post. bl = pre @ b # post \<longrightarrow>
        \<not> findMinLM_below_tolerance ops b (fold (\<lambda>b s. snd (Block_findMinLM ops b s)) pre st))"
proof (induction bl arbitrary: st)
  case Nil
  then show ?case by simp
next
  case (Cons b0 rest)
  obtain c st1 where f: "Block_findMinLM ops b0 st = (c, st1)" by (cases "Block_findMinLM ops b0 st")
  show ?case
  proof (cases "findMinLM_below_tolerance ops b0 st")
    case True
    then obtain c' where c: "c = Some c'" and lt: "dlt (lm (constraints st1 c')) LAGRANGIAN_TOLERANCE"
      using f by (auto simp: findMinLM_below_tolerance_def split: option.splits)
    have "\<not> fst (refine_scan ops (b0 # rest) st)" using f c lt by simp
    moreover have "b0 # rest = [] @ b0 # rest" by simp
    ultimately show ?thesis using True by (metis fold_simps(1))
  next
    case False
    then have "refine_scan ops (b0 # rest) st = refine_scan ops rest st1"
      using f by (auto simp: findMinLM_below_tolerance_def split: option.splits)
    moreover have "(\<forall>pre b post. b0 # rest = pre @ b # post \<longrightarrow>
        \<not> findMinLM_below_tolerance ops b (fold (\<lambda>b s. snd (Block_findMinLM ops b s)) pre st))
      = (\<forall>pre b post. rest = pre @ b # post \<longrightarrow>
        \<not> findMinLM_below_tolerance ops b (fold (\<lambda>b s. snd (Block_findMinLM ops b s)) pre st1))"
      (is "?L = ?R")
    proof
      assume L: ?L
      show ?R
      proof (intro allI impI)
        fix pre b post assume "rest = pre @ b # post"
        then have "b0 # rest = (b0 # pre) @ b # post" by simp
        with L have "\<not> findMinLM_below_tolerance ops b
            (fold (\<lambda>b s. snd (Block_findMinLM ops b s)) (b0 # pre) st)" by blast
        then show "\<not> findMinLM_below_tolerance ops b
            (fold (\<lambda>b s. snd (Block_findMinLM ops b s)) pre st1)" using f by simp
      qed
    next
      assume R: ?R
      show ?L
      proof (intro allI impI)
        fix pre b post assume d: "b0 # rest = pre @ b # post"
        show "\<not> findMinLM_below_tolerance ops b
            (fold (\<lambda>b s. snd (Block_findMinLM ops b s)) pre st)"
        proof (cases pre)
          case Nil
          with d False show ?thesis by simp
        next
          case (Cons p pre')
          with d have "p = b0" and "rest = pre' @ b # post" by simp_all
          with R Cons f show ?thesis by simp
        qed
      qed
    qed
    ultimately show ?thesis using Cons.IH [of st1] by simp
  qed
qed

lemma refine_pass_maxtries: "fst (snd (refine_pass ops s)) = fst (snd s) - 1"
  by (cases s) (simp add: refine_pass_def Let_def split: prod.splits)

lemma refine_passes_maxtries: "fst (snd ((refine_pass ops ^^ k) s)) = fst (snd s) - k"
  by (induction k) (simp_all add: refine_pass_maxtries)

lemma refine_while_passes:
  "\<exists>k\<le>fst (snd s). refine_while ops s = (refine_pass ops ^^ k) s
      \<and> (\<forall>j<k. refine_guard ((refine_pass ops ^^ j) s))
      \<and> \<not> refine_guard ((refine_pass ops ^^ k) s)"
proof (induction ops s rule: refine_while.induct)
  case (1 ops s)
  show ?case
  proof (cases "refine_guard s")
    case False
    then have "refine_while ops s = (refine_pass ops ^^ 0) s" by simp
    with False show ?thesis by (intro exI [of _ 0]) simp
  next
    case True
    from "1.IH" [OF True] obtain k where k: "k \<le> fst (snd (refine_pass ops s))"
      and r: "refine_while ops (refine_pass ops s) = (refine_pass ops ^^ k) (refine_pass ops s)"
      and g: "\<forall>j<k. refine_guard ((refine_pass ops ^^ j) (refine_pass ops s))"
      and e: "\<not> refine_guard ((refine_pass ops ^^ k) (refine_pass ops s))" by blast
    have pos: "0 < fst (snd s)" using True by (cases s) (simp add: refine_guard_def)
    have "Suc k \<le> fst (snd s)" using k pos by (simp add: refine_pass_maxtries)
    moreover have "refine_while ops s = (refine_pass ops ^^ Suc k) s"
      using True r by (simp add: funpow_swap1)
    moreover have "\<forall>j<Suc k. refine_guard ((refine_pass ops ^^ j) s)"
    proof (intro allI impI)
      fix j assume j: "j < Suc k"
      show "refine_guard ((refine_pass ops ^^ j) s)"
      proof (cases j)
        case 0
        then show ?thesis using True by simp
      next
        case (Suc j')
        then show ?thesis using g j by (simp add: funpow_swap1)
      qed
    qed
    moreover have "\<not> refine_guard ((refine_pass ops ^^ Suc k) s)"
      using e by (simp add: funpow_swap1)
    ultimately show ?thesis by blast
  qed
qed

text \<open>
  C7. From \<^verbatim>\<open>solved = false\<close> and \<^verbatim>\<open>maxtries = 100\<close> the loop of \<^verbatim>\<open>refine()\<close> makes \<open>k\<close>
  passes with \<open>1 \<le> k \<le> 100\<close> and stops: its guard holds before each of the \<open>k\<close> passes,
  and after the last one either \<^verbatim>\<open>solved\<close> is true or all 100 passes are used. A pass
  sets up the heaps of every block and ends with \<^verbatim>\<open>solved\<close> true exactly if no block it
  visits has a minimal multiplier below \<^verbatim>\<open>LAGRANGIAN_TOLERANCE\<close>; otherwise it splits the
  first such block and ends with \<^verbatim>\<open>solved\<close> false. The loop is a total function, so
  \<^verbatim>\<open>refine()\<close> returns whenever the block operations do.
\<close>

theorem refine_at_most_100_passes:
  "(\<exists>k. 1 \<le> k \<and> k \<le> 100
       \<and> refine_while ops (False, 100, st) = (refine_pass ops ^^ k) (False, 100, st)
       \<and> (\<forall>j<k. refine_guard ((refine_pass ops ^^ j) (False, 100, st)))
       \<and> \<not> refine_guard ((refine_pass ops ^^ k) (False, 100, st))
       \<and> (fst ((refine_pass ops ^^ k) (False, 100, st)) \<or> k = 100))
   \<and> (\<forall>solved maxtries s.
         fst (refine_pass ops (solved, maxtries, s)) =
           (\<forall>pre b post. bs (refine_setUp ops s) = pre @ b # post \<longrightarrow>
              \<not> findMinLM_below_tolerance ops b
                  (fold (\<lambda>b s. snd (Block_findMinLM ops b s)) pre (refine_setUp ops s))))"
proof
  let ?s = "(False, 100::nat, st)"
  from refine_while_passes [where s = ?s and ops = ops] obtain k where k: "k \<le> 100"
    and r: "refine_while ops ?s = (refine_pass ops ^^ k) ?s"
    and g: "\<forall>j<k. refine_guard ((refine_pass ops ^^ j) ?s)"
    and e: "\<not> refine_guard ((refine_pass ops ^^ k) ?s)" by auto
  have "k \<noteq> 0"
  proof
    assume "k = 0"
    with e show False by (simp add: refine_guard_def)
  qed
  then have k1: "1 \<le> k" by simp
  have "fst (snd ((refine_pass ops ^^ k) ?s)) = 100 - k"
    using refine_passes_maxtries [where ops = ops and k = k and s = ?s] by simp
  with e k have "fst ((refine_pass ops ^^ k) ?s) \<or> k = 100"
    by (cases "(refine_pass ops ^^ k) ?s") (auto simp: refine_guard_def)
  with k1 k r g e show "\<exists>k. 1 \<le> k \<and> k \<le> 100
       \<and> refine_while ops ?s = (refine_pass ops ^^ k) ?s
       \<and> (\<forall>j<k. refine_guard ((refine_pass ops ^^ j) ?s))
       \<and> \<not> refine_guard ((refine_pass ops ^^ k) ?s)
       \<and> (fst ((refine_pass ops ^^ k) ?s) \<or> k = 100)" by blast
next
  show "\<forall>solved maxtries s.
         fst (refine_pass ops (solved, maxtries, s)) =
           (\<forall>pre b post. bs (refine_setUp ops s) = pre @ b # post \<longrightarrow>
              \<not> findMinLM_below_tolerance ops b
                  (fold (\<lambda>b s. snd (Block_findMinLM ops b s)) pre (refine_setUp ops s)))"
    using refine_scan_solved [where ops = ops]
    by (simp add: refine_pass_def Let_def split: prod.splits) (metis fst_conv)
qed

lemma ex_always_split_pass:
  "refine_pass ex_always_split_ops (b, k, ex_separate ex_negative_lm [])
     = (False, k - 1, ex_separate ex_negative_lm [])"
  by (simp add: refine_pass_def refine_setUp_def ex_always_split_ops_def ex_defs ex_negative_lm_def
      LAGRANGIAN_TOLERANCE_def)

lemma ex_always_split_while:
  "refine_while ex_always_split_ops (False, k, ex_separate ex_negative_lm [])
     = (False, 0, ex_separate ex_negative_lm [])"
proof (induction k)
  case 0
  then show ?case by (simp add: refine_guard_def)
next
  case (Suc k)
  have "refine_guard (False, Suc k, ex_separate ex_negative_lm [])" by (simp add: refine_guard_def)
  then have "refine_while ex_always_split_ops (False, Suc k, ex_separate ex_negative_lm [])
     = refine_while ex_always_split_ops
         (refine_pass ex_always_split_ops (False, Suc k, ex_separate ex_negative_lm []))"
    by (subst refine_while.simps) simp
  also have "\<dots> = refine_while ex_always_split_ops (False, k, ex_separate ex_negative_lm [])"
    by (simp only: ex_always_split_pass diff_Suc_1)
  finally show ?case using Suc.IH by simp
qed

theorem refine_at_most_100_passes_witness:
  "refine_while ex_ops (False, 100, ex_separate ex_satisfied [])
     = (True, 99, ex_separate ex_satisfied [])
   \<and> (\<exists>k. 1 \<le> k \<and> k \<le> 100
        \<and> (refine_pass ex_ops ^^ k) (False, 100, ex_separate ex_satisfied [])
            = (True, 99, ex_separate ex_satisfied []))
   \<and> refine_while ex_always_split_ops (False, 100, ex_separate ex_negative_lm [])
     = (False, 0, ex_separate ex_negative_lm [])
   \<and> (refine_pass ex_always_split_ops ^^ 100) (False, 100, ex_separate ex_negative_lm [])
     = (False, 0, ex_separate ex_negative_lm [])"
proof -
  let ?S = "ex_separate ex_satisfied []" and ?N = "ex_separate ex_negative_lm []"
  have ev: "refine_while ex_ops (False, 100, ?S) = (True, 99, ?S)"
    by (simp add: refine_guard_def refine_pass_def refine_setUp_def ex_defs)
  from refine_at_most_100_passes [of ex_ops ?S] obtain k where "1 \<le> k" "k \<le> 100"
    "refine_while ex_ops (False, 100, ?S) = (refine_pass ex_ops ^^ k) (False, 100, ?S)"
    by blast
  with ev have a: "\<exists>k. 1 \<le> k \<and> k \<le> 100
        \<and> (refine_pass ex_ops ^^ k) (False, 100, ?S) = (True, 99, ?S)" by auto
  from refine_at_most_100_passes [of ex_always_split_ops ?N] obtain k where k: "k \<le> 100"
    and r: "refine_while ex_always_split_ops (False, 100, ?N)
              = (refine_pass ex_always_split_ops ^^ k) (False, 100, ?N)"
    and d: "fst ((refine_pass ex_always_split_ops ^^ k) (False, 100, ?N)) \<or> k = 100"
    by blast
  have w: "refine_while ex_always_split_ops (False, 100, ?N) = (False, 0, ?N)"
    by (rule ex_always_split_while)
  with r d have "k = 100" by auto
  with r w have b: "(refine_pass ex_always_split_ops ^^ 100) (False, 100, ?N) = (False, 0, ?N)"
    by simp
  from ev a w b show ?thesis by blast
qed

section \<open>Solver::copyResult\<close>

lemma position_not_NaN:
  assumes "isfinite (posn (blocks st (block (variables st v))))"
    and "isfinite (offset (variables st v))"
    and "isfinite (scale (variables st v))"
    and "scale (variables st v) \<noteq> Finite 0"
  shows "position st v \<noteq> NaN"
proof -
  obtain p where p: "posn (blocks st (block (variables st v))) = Finite p"
    using assms(1) by (cases "posn (blocks st (block (variables st v)))") simp_all
  obtain off where off: "offset (variables st v) = Finite off"
    using assms(2) by (cases "offset (variables st v)") simp_all
  obtain sc where sc: "scale (variables st v) = Finite sc"
    using assms(3) by (cases "scale (variables st v)") simp_all
  have nz: "sc \<noteq> 0" using assms(4) sc by simp
  have "ddiv (Finite off) (Finite sc) = fl (off / sc)" using nz by simp
  moreover have "dadd (Finite p) (fl (off / sc)) \<noteq> NaN"
    by (simp add: fl_def)
  ultimately show ?thesis by (simp add: position_def p off sc)
qed

lemma position_copyResult_step [simp]: "position (copyResult_step v st) w = position st w"
  by (simp add: copyResult_step_def position_def)

lemma copyResult_fold_frame:
  "constraints (fold copyResult_step l st) = constraints st
   \<and> blocks (fold copyResult_step l st) = blocks st
   \<and> bs (fold copyResult_step l st) = bs st
   \<and> vs (fold copyResult_step l st) = vs st
   \<and> cs (fold copyResult_step l st) = cs st
   \<and> inactive (fold copyResult_step l st) = inactive st
   \<and> solver.more (fold copyResult_step l st) = solver.more st"
  by (induction l arbitrary: st) (simp_all add: copyResult_step_def)

lemma position_copyResult_fold [simp]: "position (fold copyResult_step l st) w = position st w"
  by (induction l arbitrary: st) simp_all

lemma copyResult_fold_variables:
  "variables (fold copyResult_step l st) v =
     (if v \<in> set l then (variables st v)\<lparr>finalPosition := position st v\<rparr> else variables st v)"
proof (induction l arbitrary: st)
  case Nil
  then show ?case by simp
next
  case (Cons a l)
  show ?case
    by (simp add: Cons.IH) (simp add: copyResult_step_def)
qed

lemma copyResult_simps [simp]:
  "constraints (copyResult st) = constraints st"
  "blocks (copyResult st) = blocks st"
  "bs (copyResult st) = bs st"
  "vs (copyResult st) = vs st"
  "cs (copyResult st) = cs st"
  "inactive (copyResult st) = inactive st"
  "position (copyResult st) v = position st v"
  using copyResult_fold_frame [of "vs st" st] by (simp_all add: copyResult_def)

lemma slack_copyResult [simp]: "slack (copyResult st) c = slack st c"
  by (simp add: slack_def)

lemma copyResult_variable_fields [simp]:
  "desiredPosition (variables (copyResult st) v) = desiredPosition (variables st v)"
  "weight (variables (copyResult st) v) = weight (variables st v)"
  "scale (variables (copyResult st) v) = scale (variables st v)"
  "offset (variables (copyResult st) v) = offset (variables st v)"
  "block (variables (copyResult st) v) = block (variables st v)"
  by (simp_all add: copyResult_def copyResult_fold_variables)

text \<open>
  C10. \<^verbatim>\<open>copyResult()\<close> gives every variable of \<^verbatim>\<open>vs\<close> its position as
  \<^verbatim>\<open>finalPosition\<close> and changes no other field of it; variables outside \<^verbatim>\<open>vs\<close>, the
  constraints, the blocks and the rest of the solver are as before. If for every variable of
  \<^verbatim>\<open>vs\<close> the position of its block, its offset and its scale are finite and the scale is
  not 0, the condition of the assertion of line 107 holds each time it is evaluated (after
  the write for \<open>v\<close>, with the variables before \<open>v\<close> written) and in the final state: no
  written \<^verbatim>\<open>finalPosition\<close> is NaN. The position is the specification's
  \<^verbatim>\<open>block.position + offset/scale\<close>, computed in \<open>double\<close>.
\<close>

theorem copyResult_writes_position:
  "(\<forall>v. variables (copyResult st) v =
          (if v \<in> set (vs st) then (variables st v)\<lparr>finalPosition := position st v\<rparr>
           else variables st v))
   \<and> constraints (copyResult st) = constraints st
   \<and> blocks (copyResult st) = blocks st
   \<and> bs (copyResult st) = bs st
   \<and> vs (copyResult st) = vs st
   \<and> cs (copyResult st) = cs st
   \<and> inactive (copyResult st) = inactive st
   \<and> solver.more (copyResult st) = solver.more st
   \<and> ((\<forall>v\<in>set (vs st).
          isfinite (posn (blocks st (block (variables st v))))
          \<and> isfinite (offset (variables st v))
          \<and> isfinite (scale (variables st v))
          \<and> scale (variables st v) \<noteq> Finite 0) \<longrightarrow>
        (\<forall>pre v post. vs st = pre @ v # post \<longrightarrow>
           copyResult_assertion (fold copyResult_step (pre @ [v]) st) v)
        \<and> (\<forall>v\<in>set (vs st). copyResult_assertion (copyResult st) v))"
proof -
  have fin: "copyResult_assertion (fold copyResult_step l st) v"
    if "v \<in> set l" and "v \<in> set (vs st)" and "\<forall>v\<in>set (vs st).
          isfinite (posn (blocks st (block (variables st v))))
          \<and> isfinite (offset (variables st v))
          \<and> isfinite (scale (variables st v))
          \<and> scale (variables st v) \<noteq> Finite 0" for l v
  proof -
    have "position st v \<noteq> NaN" using that(2,3) by (intro position_not_NaN) auto
    then show ?thesis using that(1)
      by (simp add: copyResult_assertion_def copyResult_fold_variables deq_self)
  qed
  have 1: "\<forall>v. variables (copyResult st) v =
          (if v \<in> set (vs st) then (variables st v)\<lparr>finalPosition := position st v\<rparr>
           else variables st v)"
    by (simp add: copyResult_def copyResult_fold_variables)
  have 2: "constraints (copyResult st) = constraints st
   \<and> blocks (copyResult st) = blocks st
   \<and> bs (copyResult st) = bs st
   \<and> vs (copyResult st) = vs st
   \<and> cs (copyResult st) = cs st
   \<and> inactive (copyResult st) = inactive st
   \<and> solver.more (copyResult st) = solver.more st"
    unfolding copyResult_def by (rule copyResult_fold_frame)
  have 3: "(\<forall>pre v post. vs st = pre @ v # post \<longrightarrow>
           copyResult_assertion (fold copyResult_step (pre @ [v]) st) v)
        \<and> (\<forall>v\<in>set (vs st). copyResult_assertion (copyResult st) v)"
    if h: "\<forall>v\<in>set (vs st).
          isfinite (posn (blocks st (block (variables st v))))
          \<and> isfinite (offset (variables st v))
          \<and> isfinite (scale (variables st v))
          \<and> scale (variables st v) \<noteq> Finite 0"
  proof (intro conjI allI impI ballI)
    fix pre v post assume d: "vs st = pre @ v # post"
    have "v \<in> set (pre @ [v])" "v \<in> set (vs st)" using d by simp_all
    then show "copyResult_assertion (fold copyResult_step (pre @ [v]) st) v"
      using h by (rule fin)
  next
    fix v assume "v \<in> set (vs st)"
    then show "copyResult_assertion (copyResult st) v"
      unfolding copyResult_def using h by (intro fin)
  qed
  from 1 2 3 show ?thesis by blast
qed

theorem copyResult_writes_position_witness:
  "finalPosition (variables (copyResult (ex_joined ex_cycle [])) 1) = Finite 1
   \<and> finalPosition (variables (ex_joined ex_cycle []) 1) = Finite 0
   \<and> offset (variables (copyResult (ex_joined ex_cycle [])) 1) = Finite 1
   \<and> copyResult_assertion (copyResult (ex_joined ex_cycle [])) 0
   \<and> copyResult_assertion (copyResult (ex_joined ex_cycle [])) 1"
proof -
  let ?A = "ex_joined ex_cycle []"
  have h: "\<forall>v\<in>set (vs ?A).
          isfinite (posn (blocks ?A (block (variables ?A v))))
          \<and> isfinite (offset (variables ?A v))
          \<and> isfinite (scale (variables ?A v))
          \<and> scale (variables ?A v) \<noteq> Finite 0"
    by (simp add: ex_defs)
  have m: "0 \<in> set (vs ?A)" "1 \<in> set (vs ?A)" by (simp_all add: ex_defs)
  have p: "position ?A 1 = Finite 1" by (simp add: ex_defs double_evals)
  from copyResult_writes_position [of ?A] h
  have v: "\<forall>v. variables (copyResult ?A) v =
          (if v \<in> set (vs ?A) then (variables ?A v)\<lparr>finalPosition := position ?A v\<rparr>
           else variables ?A v)"
    and a: "\<forall>v\<in>set (vs ?A). copyResult_assertion (copyResult ?A) v"
    by blast+
  from v m p have "finalPosition (variables (copyResult ?A) 1) = Finite 1"
    and "offset (variables (copyResult ?A) 1) = Finite 1"
    by (simp_all add: ex_defs)
  moreover have "finalPosition (variables ?A 1) = Finite 0" by (simp add: ex_defs)
  ultimately show ?thesis using a m by blast
qed

section \<open>Solver::solve\<close>

lemma length_le_sum_list:
  "\<forall>x\<in>set xs. 1 \<le> f x \<Longrightarrow> length xs \<le> sum_list (map f xs)"
  by (induction xs) (simp_all add: Suc_le_eq add_strict_increasing)

lemma sum_list_ones:
  "\<forall>x\<in>set xs. 1 \<le> f x \<Longrightarrow>
   (sum_list (map f xs) \<noteq> length xs) = (\<exists>x\<in>set xs. (1::nat) < f x)"
proof (induction xs)
  case Nil
  then show ?case by simp
next
  case (Cons a xs)
  then have ih: "(sum_list (map f xs) \<noteq> length xs) = (\<exists>x\<in>set xs. 1 < f x)"
    and a: "1 \<le> f a" by simp_all
  have ge: "length xs \<le> sum_list (map f xs)"
    using Cons.prems by (intro length_le_sum_list) simp
  show ?case using ih a ge by auto
qed

lemma length_concat_map: "length (concat (map g xs)) = sum_list (map (\<lambda>x. length (g x)) xs)"
  by (induction xs) simp_all

lemma ex_satisfy_merge: "satisfy_merge ex_ops st = st"
proof -
  have "fold (satisfy_step ex_ops) l st = st" for l
    by (induction l) (simp_all add: satisfy_step_def ex_ops_def)
  then show ?thesis by (simp add: satisfy_merge_def) (simp add: ex_ops_def)
qed

lemma ex_refine_split: "refine_split ex_ops st = st"
proof -
  have "fold (\<lambda>b s. Block_setUpOutConstraints ex_ops b (Block_setUpInConstraints ex_ops b s)) l st = st"
    for l
    by (induction l) (simp_all add: ex_ops_def)
  then have "refine_setUp ex_ops st = st"
    by (simp add: refine_setUp_def)
  moreover have "refine_scan ex_ops l st = (True, st)" for l
    by (induction l) (simp_all add: ex_ops_def)
  ultimately show ?thesis
    by (simp add: refine_split_def refine_guard_def refine_pass_def)
qed

lemma ex_Solver_satisfy_separate:
  "Solver_satisfy ex_ops (ex_separate ex_satisfied [])
     = Inr (False, copyResult (ex_separate ex_satisfied []))"
  by (simp add: Solver_satisfy_def ex_satisfy_merge Let_def) (simp add: ex_defs double_evals)

lemma ex_Solver_refine_separate:
  "Solver_refine ex_ops (copyResult (ex_separate ex_satisfied []))
     = Inr (copyResult (ex_separate ex_satisfied []))"
  by (simp add: Solver_refine_def ex_refine_split Let_def) (simp add: ex_defs double_evals)

lemma ex_Solver_solve_separate:
  "Solver_solve ex_ops (ex_separate ex_satisfied [])
     = Inr (False, copyResult (copyResult (ex_separate ex_satisfied [])))"
  by (simp only: Solver_solve_def ex_Solver_satisfy_separate ex_Solver_refine_separate
      sum.case prod.case Let_def)
     (simp add: n_def ex_defs)

lemma ex_Solver_satisfy_joined:
  "Solver_satisfy ex_ops (ex_joined ex_active_equality [])
     = Inr (True, copyResult (ex_joined ex_active_equality []))"
  by (simp add: Solver_satisfy_def ex_satisfy_merge Let_def) (simp add: ex_defs double_evals)

lemma ex_Solver_refine_joined:
  "Solver_refine ex_ops (copyResult (ex_joined ex_active_equality []))
     = Inr (copyResult (ex_joined ex_active_equality []))"
  by (simp add: Solver_refine_def ex_refine_split Let_def) (simp add: ex_defs double_evals)

lemma ex_Solver_solve_joined:
  "Solver_solve ex_ops (ex_joined ex_active_equality [])
     = Inr (True, copyResult (copyResult (ex_joined ex_active_equality [])))"
  by (simp only: Solver_solve_def ex_Solver_satisfy_joined ex_Solver_refine_joined
      sum.case prod.case Let_def)
     (simp add: n_def ex_defs)

text \<open>
  C2. When \<^verbatim>\<open>solve()\<close> returns, its value is true exactly if the size of the block set
  differs from the number of variables. If in the final state every block of the set is not
  empty and every variable of \<^verbatim>\<open>vs\<close> is in exactly one block of the set (the variable
  lists of the blocks, put one after the other, are a rearrangement of \<^verbatim>\<open>vs\<close>), then the
  value is true exactly if some block of the set holds more than one variable.
\<close>

theorem solve_true_iff_some_block_has_several_variables:
  assumes run: "Solver_solve ops st = Inr (r, st')"
  shows "r = (length (bs st') \<noteq> length (vs st'))
       \<and> ((\<forall>b\<in>set (bs st'). vars (blocks st' b) \<noteq> [])
           \<and> mset (concat (map (\<lambda>b. vars (blocks st' b)) (bs st'))) = mset (vs st') \<longrightarrow>
          r = (\<exists>b\<in>set (bs st'). 1 < length (vars (blocks st' b))))"
proof -
  from run obtain st2 where "st' = copyResult st2" and "r = (length (bs st') \<noteq> n st')"
    by (auto simp: Solver_solve_def Let_def split: sum.splits prod.splits)
  then have r: "r = (length (bs st') \<noteq> length (vs st'))" by (simp add: n_def)
  have "r = (\<exists>b\<in>set (bs st'). 1 < length (vars (blocks st' b)))"
    if nonempty: "\<forall>b\<in>set (bs st'). vars (blocks st' b) \<noteq> []"
      and partition: "mset (concat (map (\<lambda>b. vars (blocks st' b)) (bs st'))) = mset (vs st')"
  proof -
    have "length (vs st') = size (mset (vs st'))" by simp
    also have "\<dots> = length (concat (map (\<lambda>b. vars (blocks st' b)) (bs st')))"
      by (simp only: partition [symmetric] size_mset)
    also have "\<dots> = sum_list (map (\<lambda>b. length (vars (blocks st' b))) (bs st'))"
      by (rule length_concat_map)
    finally have len:
      "length (vs st') = sum_list (map (\<lambda>b. length (vars (blocks st' b))) (bs st'))" .
    have "\<forall>b\<in>set (bs st'). 1 \<le> length (vars (blocks st' b))"
      using nonempty by (simp add: Suc_le_eq)
    from sum_list_ones [OF this] len r show ?thesis by auto
  qed
  with r show ?thesis by blast
qed

theorem solve_true_iff_some_block_has_several_variables_witness:
  "Solver_solve ex_ops (ex_separate ex_satisfied [])
     = Inr (False, copyResult (copyResult (ex_separate ex_satisfied [])))
   \<and> \<not> (\<exists>b\<in>set (bs (copyResult (copyResult (ex_separate ex_satisfied [])))).
          1 < length (vars (blocks (copyResult (copyResult (ex_separate ex_satisfied []))) b)))
   \<and> Solver_solve ex_ops (ex_joined ex_active_equality [])
     = Inr (True, copyResult (copyResult (ex_joined ex_active_equality [])))
   \<and> (\<exists>b\<in>set (bs (copyResult (copyResult (ex_joined ex_active_equality [])))).
          1 < length (vars (blocks (copyResult (copyResult (ex_joined ex_active_equality []))) b)))"
proof -
  let ?S = "ex_separate ex_satisfied []" and ?J = "ex_joined ex_active_equality []"
  let ?S' = "copyResult (copyResult ?S)" and ?J' = "copyResult (copyResult ?J)"
  have hs: "(\<forall>b\<in>set (bs ?S'). vars (blocks ?S' b) \<noteq> [])
           \<and> mset (concat (map (\<lambda>b. vars (blocks ?S' b)) (bs ?S'))) = mset (vs ?S')"
    by (simp add: ex_defs)
  have hj: "(\<forall>b\<in>set (bs ?J'). vars (blocks ?J' b) \<noteq> [])
           \<and> mset (concat (map (\<lambda>b. vars (blocks ?J' b)) (bs ?J'))) = mset (vs ?J')"
    by (simp add: ex_defs)
  from solve_true_iff_some_block_has_several_variables [OF ex_Solver_solve_separate] hs
  have 1: "False = (\<exists>b\<in>set (bs ?S'). 1 < length (vars (blocks ?S' b)))" by blast
  from solve_true_iff_some_block_has_several_variables [OF ex_Solver_solve_joined] hj
  have 2: "True = (\<exists>b\<in>set (bs ?J'). 1 < length (vars (blocks ?J' b)))" by blast
  from 1 2 ex_Solver_solve_separate ex_Solver_solve_joined show ?thesis by simp
qed

section \<open>The final verification\<close>

lemma satisfy_verify_throws:
  "\<exists>c\<in>set l. dlt (slack st c) ZERO_UPPERBOUND \<Longrightarrow>
   \<exists>pre c post. l = pre @ c # post \<and> (\<forall>x\<in>set pre. \<not> dlt (slack st x) ZERO_UPPERBOUND)
     \<and> dlt (slack st c) ZERO_UPPERBOUND \<and> satisfy_verify st l a = Inl (UnsatisfiedConstraint c)"
proof (induction l arbitrary: a)
  case Nil
  then show ?case by simp
next
  case (Cons x l)
  show ?case
  proof (cases "dlt (slack st x) ZERO_UPPERBOUND")
    case True
    then have "x # l = [] @ x # l \<and> (\<forall>y\<in>set []. \<not> dlt (slack st y) ZERO_UPPERBOUND)
      \<and> dlt (slack st x) ZERO_UPPERBOUND \<and> satisfy_verify st (x # l) a = Inl (UnsatisfiedConstraint x)"
      by simp
    then show ?thesis by blast
  next
    case False
    with Cons.prems have "\<exists>c\<in>set l. dlt (slack st c) ZERO_UPPERBOUND" by auto
    from Cons.IH [OF this, of "if active (constraints st x) then True else a"]
    obtain pre c post where "l = pre @ c # post" "\<forall>y\<in>set pre. \<not> dlt (slack st y) ZERO_UPPERBOUND"
      "dlt (slack st c) ZERO_UPPERBOUND"
      "satisfy_verify st l (if active (constraints st x) then True else a) = Inl (UnsatisfiedConstraint c)"
      by blast
    with False have "x # l = (x # pre) @ c # post \<and> (\<forall>y\<in>set (x # pre). \<not> dlt (slack st y) ZERO_UPPERBOUND)
      \<and> dlt (slack st c) ZERO_UPPERBOUND \<and> satisfy_verify st (x # l) a = Inl (UnsatisfiedConstraint c)"
      by simp
    then show ?thesis by blast
  qed
qed

lemma satisfy_verify_returns:
  "satisfy_verify st l a = Inr b \<Longrightarrow> \<forall>c\<in>set l. \<not> dlt (slack st c) ZERO_UPPERBOUND"
  by (induction l arbitrary: a) (auto split: if_splits)

lemma refine_verify_throws:
  "\<exists>c\<in>set l. dlt (slack st c) ZERO_UPPERBOUND \<Longrightarrow>
   \<exists>pre c post. l = pre @ c # post \<and> (\<forall>x\<in>set pre. \<not> dlt (slack st x) ZERO_UPPERBOUND)
     \<and> dlt (slack st c) ZERO_UPPERBOUND \<and> refine_verify st l = Inl (UnsatisfiedConstraint c)"
proof (induction l)
  case Nil
  then show ?case by simp
next
  case (Cons x l)
  show ?case
  proof (cases "dlt (slack st x) ZERO_UPPERBOUND")
    case True
    then have "x # l = [] @ x # l \<and> (\<forall>y\<in>set []. \<not> dlt (slack st y) ZERO_UPPERBOUND)
      \<and> dlt (slack st x) ZERO_UPPERBOUND \<and> refine_verify st (x # l) = Inl (UnsatisfiedConstraint x)"
      by simp
    then show ?thesis by blast
  next
    case False
    with Cons.prems have "\<exists>c\<in>set l. dlt (slack st c) ZERO_UPPERBOUND" by auto
    from Cons.IH [OF this]
    obtain pre c post where "l = pre @ c # post" "\<forall>y\<in>set pre. \<not> dlt (slack st y) ZERO_UPPERBOUND"
      "dlt (slack st c) ZERO_UPPERBOUND"
      "refine_verify st l = Inl (UnsatisfiedConstraint c)"
      by blast
    with False have "x # l = (x # pre) @ c # post \<and> (\<forall>y\<in>set (x # pre). \<not> dlt (slack st y) ZERO_UPPERBOUND)
      \<and> dlt (slack st c) ZERO_UPPERBOUND \<and> refine_verify st (x # l) = Inl (UnsatisfiedConstraint c)"
      by simp
    then show ?thesis by blast
  qed
qed

lemma refine_verify_returns:
  "refine_verify st l = Inr b \<Longrightarrow> \<forall>c\<in>set l. \<not> dlt (slack st c) ZERO_UPPERBOUND"
  by (induction l) (auto split: if_splits)

lemma IncSolver_verify_throws:
  "\<exists>c\<in>set l. dlt (slack st c) ZERO_UPPERBOUND \<Longrightarrow>
   \<exists>pre c post. l = pre @ c # post \<and> (\<forall>x\<in>set pre. \<not> dlt (slack st x) ZERO_UPPERBOUND)
     \<and> dlt (slack st c) ZERO_UPPERBOUND \<and> IncSolver_verify st l a = Inl ThrownCString"
proof (induction l arbitrary: a)
  case Nil
  then show ?case by simp
next
  case (Cons x l)
  show ?case
  proof (cases "dlt (slack st x) ZERO_UPPERBOUND")
    case True
    then have "x # l = [] @ x # l \<and> (\<forall>y\<in>set []. \<not> dlt (slack st y) ZERO_UPPERBOUND)
      \<and> dlt (slack st x) ZERO_UPPERBOUND \<and> IncSolver_verify st (x # l) a = Inl ThrownCString"
      by simp
    then show ?thesis by blast
  next
    case False
    with Cons.prems have "\<exists>c\<in>set l. dlt (slack st c) ZERO_UPPERBOUND" by auto
    from Cons.IH [OF this, of "if active (constraints st x) then True else a"]
    obtain pre c post where "l = pre @ c # post" "\<forall>y\<in>set pre. \<not> dlt (slack st y) ZERO_UPPERBOUND"
      "dlt (slack st c) ZERO_UPPERBOUND"
      "IncSolver_verify st l (if active (constraints st x) then True else a) = Inl ThrownCString"
      by blast
    with False have "x # l = (x # pre) @ c # post \<and> (\<forall>y\<in>set (x # pre). \<not> dlt (slack st y) ZERO_UPPERBOUND)
      \<and> dlt (slack st c) ZERO_UPPERBOUND \<and> IncSolver_verify st (x # l) a = Inl ThrownCString"
      by simp
    then show ?thesis by blast
  qed
qed

lemma IncSolver_verify_returns:
  "IncSolver_verify st l a = Inr b \<Longrightarrow> \<forall>c\<in>set l. \<not> dlt (slack st c) ZERO_UPPERBOUND"
  by (induction l arbitrary: a) (auto split: if_splits)

lemma Solver_satisfy_throws:
  assumes "\<exists>c\<in>set (cs (satisfy_merge ops st)). dlt (slack (satisfy_merge ops st) c) ZERO_UPPERBOUND"
  shows "\<exists>pre c post. cs (satisfy_merge ops st) = pre @ c # post
           \<and> (\<forall>x\<in>set pre. \<not> dlt (slack (satisfy_merge ops st) x) ZERO_UPPERBOUND)
           \<and> dlt (slack (satisfy_merge ops st) c) ZERO_UPPERBOUND
           \<and> Solver_satisfy ops st = Inl (UnsatisfiedConstraint c)"
proof -
  from satisfy_verify_throws [OF assms, of False]
  obtain pre c post where "cs (satisfy_merge ops st) = pre @ c # post"
    "\<forall>x\<in>set pre. \<not> dlt (slack (satisfy_merge ops st) x) ZERO_UPPERBOUND"
    "dlt (slack (satisfy_merge ops st) c) ZERO_UPPERBOUND"
    "satisfy_verify (satisfy_merge ops st) (cs (satisfy_merge ops st)) False = Inl (UnsatisfiedConstraint c)"
    by blast
  moreover from this have "Solver_satisfy ops st = Inl (UnsatisfiedConstraint c)"
    by (simp add: Solver_satisfy_def Let_def)
  ultimately show ?thesis by blast
qed

lemma Solver_satisfy_returns:
  assumes "Solver_satisfy ops st = Inr r"
  shows "\<forall>c\<in>set (cs (satisfy_merge ops st)).
           \<not> dlt (slack (satisfy_merge ops st) c) ZERO_UPPERBOUND
           \<and> (dge (slack (satisfy_merge ops st) c) ZERO_UPPERBOUND \<or> slack (satisfy_merge ops st) c = NaN)"
proof -
  from assms obtain b where
    "satisfy_verify (satisfy_merge ops st) (cs (satisfy_merge ops st)) False = Inr b"
    by (auto simp: Solver_satisfy_def Let_def split: sum.splits)
  from satisfy_verify_returns [OF this] show ?thesis
    using not_dlt_dge by (auto simp: ZERO_UPPERBOUND_def)
qed

lemma Solver_refine_throws:
  assumes "\<exists>c\<in>set (cs (refine_split ops st)). dlt (slack (refine_split ops st) c) ZERO_UPPERBOUND"
  shows "\<exists>pre c post. cs (refine_split ops st) = pre @ c # post
           \<and> (\<forall>x\<in>set pre. \<not> dlt (slack (refine_split ops st) x) ZERO_UPPERBOUND)
           \<and> dlt (slack (refine_split ops st) c) ZERO_UPPERBOUND
           \<and> Solver_refine ops st = Inl (UnsatisfiedConstraint c)"
proof -
  from refine_verify_throws [OF assms]
  obtain pre c post where "cs (refine_split ops st) = pre @ c # post"
    "\<forall>x\<in>set pre. \<not> dlt (slack (refine_split ops st) x) ZERO_UPPERBOUND"
    "dlt (slack (refine_split ops st) c) ZERO_UPPERBOUND"
    "refine_verify (refine_split ops st) (cs (refine_split ops st)) = Inl (UnsatisfiedConstraint c)"
    by blast
  moreover from this have "Solver_refine ops st = Inl (UnsatisfiedConstraint c)"
    by (simp add: Solver_refine_def Let_def)
  ultimately show ?thesis by blast
qed

lemma Solver_refine_returns:
  assumes "Solver_refine ops st = Inr r"
  shows "\<forall>c\<in>set (cs (refine_split ops st)).
           \<not> dlt (slack (refine_split ops st) c) ZERO_UPPERBOUND
           \<and> (dge (slack (refine_split ops st) c) ZERO_UPPERBOUND \<or> slack (refine_split ops st) c = NaN)"
proof -
  from assms obtain b where
    "refine_verify (refine_split ops st) (cs (refine_split ops st)) = Inr b"
    by (auto simp: Solver_refine_def Let_def split: sum.splits)
  from refine_verify_returns [OF this] show ?thesis
    using not_dlt_dge by (auto simp: ZERO_UPPERBOUND_def)
qed

lemma IncSolver_satisfy_throws:
  assumes "IncSolver_merge ops st = Some (Inr st2)"
    and "\<exists>c\<in>set (cs st2). dlt (slack st2 c) ZERO_UPPERBOUND"
  shows "\<exists>pre c post. cs st2 = pre @ c # post
           \<and> (\<forall>x\<in>set pre. \<not> dlt (slack st2 x) ZERO_UPPERBOUND)
           \<and> dlt (slack st2 c) ZERO_UPPERBOUND
           \<and> IncSolver_satisfy ops st = Some (Inl ThrownCString)"
proof -
  from IncSolver_verify_throws [OF assms(2), of False]
  obtain pre c post where "cs st2 = pre @ c # post"
    "\<forall>x\<in>set pre. \<not> dlt (slack st2 x) ZERO_UPPERBOUND"
    "dlt (slack st2 c) ZERO_UPPERBOUND"
    "IncSolver_verify st2 (cs st2) False = Inl ThrownCString"
    by blast
  moreover from this assms(1) have "IncSolver_satisfy ops st = Some (Inl ThrownCString)"
    by (simp add: IncSolver_satisfy_def)
  ultimately show ?thesis by blast
qed

lemma IncSolver_satisfy_returns:
  assumes "IncSolver_merge ops st = Some (Inr st2)"
    and "IncSolver_satisfy ops st = Some (Inr r)"
  shows "\<forall>c\<in>set (cs st2).
           \<not> dlt (slack st2 c) ZERO_UPPERBOUND
           \<and> (dge (slack st2 c) ZERO_UPPERBOUND \<or> slack st2 c = NaN)"
proof -
  from assms obtain b where "IncSolver_verify st2 (cs st2) False = Inr b"
    by (auto simp: IncSolver_satisfy_def split: sum.splits)
  from IncSolver_verify_returns [OF this] show ?thesis
    using not_dlt_dge by (auto simp: ZERO_UPPERBOUND_def)
qed

lemma satisfy_loop_result:
  assumes "satisfy_loop ops st = Some y"
  shows "\<exists>st'. y = Inr st'"
proof (rule satisfy_loop.raw_induct [where P = "\<lambda>ops st y. \<exists>st'. y = Inr st'", OF _ assms])
  fix f :: "'a ops \<Rightarrow> 'a solver_scheme \<Rightarrow> (error + 'a solver_scheme) option"
    and ops st y
  assume IH: "\<And>ops st y. f ops st = Some y \<Longrightarrow> \<exists>st'. y = Inr st'"
    and eq: "(case mostViolated st (inactive st) of
                Inl e \<Rightarrow> Some (Inl e)
              | Inr (None, l) \<Rightarrow> Some (Inr (st\<lparr>inactive := l\<rparr>))
              | Inr (Some v, l) \<Rightarrow>
                  if satisfy_cond (st\<lparr>inactive := l\<rparr>) v
                  then f ops (satisfy_body ops v (st\<lparr>inactive := l\<rparr>))
                  else Some (Inr (st\<lparr>inactive := l\<rparr>))) = Some y"
  show "\<exists>st'. y = Inr st'"
  proof (cases "mostViolated st (inactive st)")
    case (Inl e)
    then have "e = NullDereference"
      by (auto simp: mostViolated_def split: prod.splits option.splits if_splits)
    with Inl show ?thesis
      using mostViolated_no_null_dereference [of st "inactive st"] by simp
  next
    case (Inr p)
    obtain v l where p: "p = (v, l)" by (cases p)
    show ?thesis
    proof (cases v)
      case None
      with Inr p eq show ?thesis by auto
    next
      case (Some c)
      show ?thesis
      proof (cases "satisfy_cond (st\<lparr>inactive := l\<rparr>) c")
        case True
        with Inr p Some eq
        have "f ops (satisfy_body ops c (st\<lparr>inactive := l\<rparr>)) = Some y" by simp
        then show ?thesis by (rule IH)
      next
        case False
        with Inr p Some eq show ?thesis by auto
      qed
    qed
  qed
qed

lemma IncSolver_merge_result:
  "IncSolver_merge ops st = Some y \<Longrightarrow> \<exists>st'. y = Inr st'"
  using satisfy_loop_result [of ops]
  by (fastforce simp: IncSolver_merge_def split: option.splits sum.splits)

lemma satisfy_verify_passes:
  "\<forall>c\<in>set l. \<not> dlt (slack st c) ZERO_UPPERBOUND \<Longrightarrow>
   satisfy_verify st l a = Inr (a \<or> (\<exists>c\<in>set l. active (constraints st c)))"
  by (induction l arbitrary: a) auto

lemma refine_verify_passes:
  "\<forall>c\<in>set l. \<not> dlt (slack st c) ZERO_UPPERBOUND \<Longrightarrow> refine_verify st l = Inr ()"
  by (induction l) auto

lemma IncSolver_verify_passes:
  "\<forall>c\<in>set l. \<not> dlt (slack st c) ZERO_UPPERBOUND \<Longrightarrow>
   IncSolver_verify st l a = Inr (a \<or> (\<exists>c\<in>set l. active (constraints st c)))"
  by (induction l arbitrary: a) auto

lemma Solver_satisfy_passes:
  assumes "\<forall>c\<in>set (cs (satisfy_merge ops st)). \<not> dlt (slack (satisfy_merge ops st) c) ZERO_UPPERBOUND"
  shows "Solver_satisfy ops st
           = Inr (\<exists>c\<in>set (cs (satisfy_merge ops st)). active (constraints (satisfy_merge ops st) c),
                  copyResult (satisfy_merge ops st))"
  using satisfy_verify_passes [OF assms, of False] by (simp add: Solver_satisfy_def Let_def)

lemma Solver_refine_passes:
  assumes "\<forall>c\<in>set (cs (refine_split ops st)). \<not> dlt (slack (refine_split ops st) c) ZERO_UPPERBOUND"
  shows "Solver_refine ops st = Inr (refine_split ops st)"
  using refine_verify_passes [OF assms] by (simp add: Solver_refine_def Let_def)

lemma IncSolver_satisfy_passes:
  assumes "IncSolver_merge ops st = Some (Inr st2)"
    and "\<forall>c\<in>set (cs st2). \<not> dlt (slack st2 c) ZERO_UPPERBOUND"
  shows "IncSolver_satisfy ops st
           = Some (Inr (\<exists>c\<in>set (cs st2). active (constraints st2 c), copyResult st2))"
  using IncSolver_verify_passes [OF assms(2), of False] assms(1)
  by (simp add: IncSolver_satisfy_def)

text \<open>
  The last pass of \<^verbatim>\<open>Solver::satisfy()\<close>, \<^verbatim>\<open>Solver::refine()\<close> and
  \<^verbatim>\<open>IncSolver::satisfy()\<close> goes over \<^verbatim>\<open>cs\<close> in the state the merges and splits left. If
  some constraint has a slack below \<^verbatim>\<open>ZERO_UPPERBOUND\<close> there, the call fails at the first
  such constraint \<open>c\<close> of \<^verbatim>\<open>cs\<close>: the two operations of \<^verbatim>\<open>Solver\<close> throw
  \<^verbatim>\<open>UnsatisfiedConstraint\<close> carrying \<open>c\<close>, and \<^verbatim>\<open>IncSolver::satisfy()\<close> throws the
  \<^verbatim>\<open>const char*\<close> of line 309. If the call returns, no constraint of \<^verbatim>\<open>cs\<close> has a slack
  below \<^verbatim>\<open>ZERO_UPPERBOUND\<close>, flagged unsatisfiable or not: every slack is at least
  \<^verbatim>\<open>ZERO_UPPERBOUND\<close> or is NaN. If no slack is below \<^verbatim>\<open>ZERO_UPPERBOUND\<close>, the call
  returns. For the incremental solver this is about the runs in which the two loops before
  the verification end; these loops raise nothing.
\<close>

lemma verification_outcomes:
  "((\<exists>c\<in>set (cs (satisfy_merge ops st)). dlt (slack (satisfy_merge ops st) c) ZERO_UPPERBOUND) \<longrightarrow>
      (\<exists>pre c post. cs (satisfy_merge ops st) = pre @ c # post
           \<and> (\<forall>x\<in>set pre. \<not> dlt (slack (satisfy_merge ops st) x) ZERO_UPPERBOUND)
           \<and> dlt (slack (satisfy_merge ops st) c) ZERO_UPPERBOUND
           \<and> Solver_satisfy ops st = Inl (UnsatisfiedConstraint c)))
   \<and> (\<forall>r. Solver_satisfy ops st = Inr r \<longrightarrow>
        (\<forall>c\<in>set (cs (satisfy_merge ops st)).
           \<not> dlt (slack (satisfy_merge ops st) c) ZERO_UPPERBOUND
           \<and> (dge (slack (satisfy_merge ops st) c) ZERO_UPPERBOUND
              \<or> slack (satisfy_merge ops st) c = NaN)))
   \<and> ((\<forall>c\<in>set (cs (satisfy_merge ops st)).
          \<not> dlt (slack (satisfy_merge ops st) c) ZERO_UPPERBOUND) \<longrightarrow>
        Solver_satisfy ops st
          = Inr (\<exists>c\<in>set (cs (satisfy_merge ops st)). active (constraints (satisfy_merge ops st) c),
                 copyResult (satisfy_merge ops st)))
   \<and> ((\<exists>c\<in>set (cs (refine_split ops st)). dlt (slack (refine_split ops st) c) ZERO_UPPERBOUND) \<longrightarrow>
      (\<exists>pre c post. cs (refine_split ops st) = pre @ c # post
           \<and> (\<forall>x\<in>set pre. \<not> dlt (slack (refine_split ops st) x) ZERO_UPPERBOUND)
           \<and> dlt (slack (refine_split ops st) c) ZERO_UPPERBOUND
           \<and> Solver_refine ops st = Inl (UnsatisfiedConstraint c)))
   \<and> (\<forall>r. Solver_refine ops st = Inr r \<longrightarrow>
        (\<forall>c\<in>set (cs (refine_split ops st)).
           \<not> dlt (slack (refine_split ops st) c) ZERO_UPPERBOUND
           \<and> (dge (slack (refine_split ops st) c) ZERO_UPPERBOUND
              \<or> slack (refine_split ops st) c = NaN)))
   \<and> ((\<forall>c\<in>set (cs (refine_split ops st)).
          \<not> dlt (slack (refine_split ops st) c) ZERO_UPPERBOUND) \<longrightarrow>
        Solver_refine ops st = Inr (refine_split ops st))
   \<and> (\<forall>e. IncSolver_merge ops st \<noteq> Some (Inl e))
   \<and> (\<forall>st2. IncSolver_merge ops st = Some (Inr st2) \<longrightarrow>
        ((\<exists>c\<in>set (cs st2). dlt (slack st2 c) ZERO_UPPERBOUND) \<longrightarrow>
           (\<exists>pre c post. cs st2 = pre @ c # post
              \<and> (\<forall>x\<in>set pre. \<not> dlt (slack st2 x) ZERO_UPPERBOUND)
              \<and> dlt (slack st2 c) ZERO_UPPERBOUND
              \<and> IncSolver_satisfy ops st = Some (Inl ThrownCString)))
        \<and> (\<forall>r. IncSolver_satisfy ops st = Some (Inr r) \<longrightarrow>
             (\<forall>c\<in>set (cs st2).
                \<not> dlt (slack st2 c) ZERO_UPPERBOUND
                \<and> (dge (slack st2 c) ZERO_UPPERBOUND \<or> slack st2 c = NaN)))
        \<and> ((\<forall>c\<in>set (cs st2). \<not> dlt (slack st2 c) ZERO_UPPERBOUND) \<longrightarrow>
             IncSolver_satisfy ops st
               = Some (Inr (\<exists>c\<in>set (cs st2). active (constraints st2 c), copyResult st2))))"
proof -
  have a: "\<forall>e. IncSolver_merge ops st \<noteq> Some (Inl e)"
    using IncSolver_merge_result [of ops st] by auto
  show ?thesis
    using Solver_satisfy_throws [of ops st] Solver_satisfy_returns [of ops st]
      Solver_satisfy_passes [of ops st]
      Solver_refine_throws [of ops st] Solver_refine_returns [of ops st]
      Solver_refine_passes [of ops st]
      IncSolver_satisfy_throws [of ops st] IncSolver_satisfy_returns [of ops st]
      IncSolver_satisfy_passes [of ops st] a
    by blast
qed

lemma splitBlocks_loop_end: "splitBlocks_loop ops None st = Some st"
  by (subst splitBlocks_loop.simps) simp

lemma splitBlocks_loop_step:
  "splitBlocks_loop ops (Some b) st =
     splitBlocks_loop ops (set_next (bs (splitBlocks_body ops b st)) b) (splitBlocks_body ops b st)"
  by (subst splitBlocks_loop.simps) simp

lemma ex_splitBlocks:
  "splitBlocks ex_ops (ex_joined ex_raised_gap [1]) = Some (ex_joined ex_raised_gap [1])"
  by (simp add: splitBlocks_def moveBlocks_def splitBlocks_loop_step splitBlocks_loop_end
      splitBlocks_body_def ex_defs)

lemma ex_satisfy_loop:
  "satisfy_loop ex_ops (ex_joined ex_raised_gap [1])
     = Some (Inr (ex_joined ex_raised_gap [1]))"
proof -
  let ?V = "ex_joined ex_raised_gap [1]"
  have mv: "mostViolated ?V (inactive ?V) = Inr (Some 1, [1])"
    by (simp add: mostViolated_def ex_defs double_evals)
  have "\<not> satisfy_cond ?V 1"
    by (simp add: satisfy_cond_def ex_defs double_evals)
  from satisfy_loop_stop [OF mv this, of ex_ops] show ?thesis by (simp add: ex_defs)
qed

lemma ex_ops_cleanup: "Blocks_cleanup ex_ops st = st"
  by (simp add: ex_ops_def)

lemma ex_IncSolver_merge:
  "IncSolver_merge ex_ops (ex_joined ex_raised_gap [1])
     = Some (Inr (ex_joined ex_raised_gap [1]))"
  by (simp only: IncSolver_merge_def ex_splitBlocks ex_satisfy_loop ex_ops_cleanup
      option.case sum.case)

lemma ex_IncSolver_verify:
  "IncSolver_verify (ex_joined ex_raised_gap [1])
     (cs (ex_joined ex_raised_gap [1])) False = Inl ThrownCString"
  by (simp add: ex_defs double_evals)

lemma ex_raised_gap_slack:
  "dlt (slack (ex_joined ex_raised_gap [1]) 0) ZERO_UPPERBOUND"
  by (simp add: ex_defs double_evals)

lemma ex_Solver_satisfy_raised_gap:
  "Solver_satisfy ex_ops (ex_joined ex_raised_gap [1]) = Inl (UnsatisfiedConstraint 0)"
  by (simp add: Solver_satisfy_def ex_satisfy_merge Let_def) (simp add: ex_defs double_evals)

lemma ex_Solver_refine_raised_gap:
  "Solver_refine ex_ops (ex_joined ex_raised_gap [1]) = Inl (UnsatisfiedConstraint 0)"
  by (simp add: Solver_refine_def ex_refine_split Let_def) (simp add: ex_defs double_evals)

lemma ex_Solver_satisfy_nan_gap:
  "Solver_satisfy ex_ops (ex_separate ex_nan_gap [])
     = Inr (False, copyResult (ex_separate ex_nan_gap []))
   \<and> \<not> dge (slack (ex_separate ex_nan_gap []) 0) ZERO_UPPERBOUND"
proof -
  have "Solver_satisfy ex_ops (ex_separate ex_nan_gap [])
       = Inr (False, copyResult (ex_separate ex_nan_gap []))"
    by (simp add: Solver_satisfy_def ex_satisfy_merge Let_def) (simp add: ex_defs double_evals)
  moreover have "\<not> dge (slack (ex_separate ex_nan_gap []) 0) ZERO_UPPERBOUND"
    by (simp add: ex_defs double_evals)
  ultimately show ?thesis by simp
qed

text \<open>
  C1. \<^verbatim>\<open>IncSolver::satisfy()\<close> does not raise \<^verbatim>\<open>UnsatisfiedConstraint\<close>. Take two
  variables in one block, 1 apart, the active constraint 0 that asks \<open>x1 - x0 \<ge> 5\<close>, and
  the constraint 1 that asks \<open>x1 - x0 \<ge> -3\<close>, not active and alone in \<^verbatim>\<open>inactive\<close>; the
  block operations leave the block as it is. The slack of constraint 0 is \<open>-4\<close>, below
  \<^verbatim>\<open>ZERO_UPPERBOUND\<close>. The two loops of \<^verbatim>\<open>IncSolver::satisfy()\<close> end in this state and
  its verification throws the \<^verbatim>\<open>const char*\<close> of line 309, which carries no constraint;
  from the same state \<^verbatim>\<open>Solver::satisfy()\<close> and \<^verbatim>\<open>Solver::refine()\<close> throw
  \<^verbatim>\<open>UnsatisfiedConstraint\<close> with constraint 0 (lines 138 and 180).
\<close>

theorem IncSolver_satisfy_throws_string:
  "dlt (slack (ex_joined ex_raised_gap [1]) 0) ZERO_UPPERBOUND
   \<and> IncSolver_merge ex_ops (ex_joined ex_raised_gap [1])
       = Some (Inr (ex_joined ex_raised_gap [1]))
   \<and> IncSolver_satisfy ex_ops (ex_joined ex_raised_gap [1]) = Some (Inl ThrownCString)
   \<and> IncSolver_satisfy ex_ops (ex_joined ex_raised_gap [1])
       \<noteq> Some (Inl (UnsatisfiedConstraint 0))
   \<and> Solver_satisfy ex_ops (ex_joined ex_raised_gap [1]) = Inl (UnsatisfiedConstraint 0)
   \<and> Solver_refine ex_ops (ex_joined ex_raised_gap [1]) = Inl (UnsatisfiedConstraint 0)"
proof -
  have "IncSolver_satisfy ex_ops (ex_joined ex_raised_gap [1]) = Some (Inl ThrownCString)"
    by (simp only: IncSolver_satisfy_def ex_IncSolver_merge ex_IncSolver_verify
        option.case sum.case)
  then show ?thesis
    using ex_raised_gap_slack ex_IncSolver_merge ex_Solver_satisfy_raised_gap
      ex_Solver_refine_raised_gap
    by simp
qed

end
